theory Spec2Isabelle
  imports Main "HOL-Library.Word" "HOL-Library.AList"
begin

unbundle bit_operations_syntax

section \<open>Common data\<close>

type_synonym byte = "8 word"
type_synonym bytes = "byte list"

text \<open>
  Every error value and every run-time panic of the modelled Go code is a constructor
  here; a Go function returning \<open>(T, error)\<close> becomes a function into \<open>error + T\<close>,
  one returning only \<open>error\<close> a function into \<open>error option\<close>.
\<close>

datatype error =
    ErrItemNotFound                 \<comment> \<open>vault.ErrItemNotFound\<close>
  | ErrBlockNotFound                \<comment> \<open>storage.ErrBlockNotFound\<close>
  | StorageFailure string           \<comment> \<open>any other error of the block storage\<close>
  | UnexpectedReadError string error \<comment> \<open>"unexpected error reading %v: %v"\<close>
  | ReservedName string             \<comment> \<open>"invalid vault item name: '%v'"\<close>
  | ChecksumMismatch                \<comment> \<open>"cannot read encrypted block: incorrect checksum"\<close>
  | UnsupportedChecksum string      \<comment> \<open>"unsupported checksum format: %v"\<close>
  | UnsupportedEncryption string    \<comment> \<open>"unsupported encryption format: %v"\<close>
  | KeySizeError nat                \<comment> \<open>aes.NewCipher on a key of another length\<close>
  | RngFailure                      \<comment> \<open>io.ReadFull(rand.Reader, iv) failed\<close>
  | VaultFormatMissing              \<comment> \<open>"vault format block not found"\<close>
  | JSONError                       \<comment> \<open>json.Unmarshal failed\<close>
  | Panic string                    \<comment> \<open>a run-time panic of the Go program\<close>
  | ExternalError string            \<comment> \<open>an error returned by code outside the modelled files\<close>
  | Wrapf string error              \<comment> \<open>errors.Wrap and errors.Wrapf: a message around a cause\<close>
  | ErrUploadCancelled              \<comment> \<open>dir.ErrUploadCancelled\<close>
  | UnableToOpenFile string error   \<comment> \<open>"unable to open file %s: %v"\<close>
  | UnableToHashFile error          \<comment> \<open>"unable to hash file: %s"\<close>

section \<open>The block storage the vault runs on\<close>

text \<open>
  \<open>storage.Storage\<close> is an interface of another package. It is modelled as a value:
  the stored blocks in insertion order, a table of injected failures, and the log of the
  calls made, so that "the storage was not touched" is the statement that this value did
  not change.
\<close>

datatype storage_op =
    OpGetBlock string
  | OpPutBlock string bytes
  | OpDeleteBlock string
  | OpListBlocks string

record storage =
  blocks :: "(string \<times> bytes) list"
  fault :: "storage_op \<Rightarrow> string option"
  oplog :: "storage_op list"

definition logged :: "storage_op \<Rightarrow> storage \<Rightarrow> storage" where
  "logged op st = st\<lparr>oplog := oplog st @ [op]\<rparr>"

definition GetBlock :: "storage \<Rightarrow> string \<Rightarrow> (error + bytes) \<times> storage" where
  "GetBlock st blockID =
     (case fault st (OpGetBlock blockID) of
        Some msg \<Rightarrow> (Inl (StorageFailure msg), logged (OpGetBlock blockID) st)
      | None \<Rightarrow>
          (case map_of (blocks st) blockID of
             None \<Rightarrow> (Inl ErrBlockNotFound, logged (OpGetBlock blockID) st)
           | Some b \<Rightarrow> (Inr b, logged (OpGetBlock blockID) st)))"

definition PutBlock :: "storage \<Rightarrow> string \<Rightarrow> bytes \<Rightarrow> error option \<times> storage" where
  "PutBlock st blockID content =
     (case fault st (OpPutBlock blockID content) of
        Some msg \<Rightarrow> (Some (StorageFailure msg), logged (OpPutBlock blockID content) st)
      | None \<Rightarrow>
          (None, logged (OpPutBlock blockID content)
                   (st\<lparr>blocks := AList.update blockID content (blocks st)\<rparr>)))"

definition DeleteBlock :: "storage \<Rightarrow> string \<Rightarrow> error option \<times> storage" where
  "DeleteBlock st blockID =
     (case fault st (OpDeleteBlock blockID) of
        Some msg \<Rightarrow> (Some (StorageFailure msg), logged (OpDeleteBlock blockID) st)
      | None \<Rightarrow>
          (None, logged (OpDeleteBlock blockID)
                   (st\<lparr>blocks := AList.delete blockID (blocks st)\<rparr>)))"

fun HasPrefix :: "string \<Rightarrow> string \<Rightarrow> bool" where
  "HasPrefix s [] = True"
| "HasPrefix [] (p # ps) = False"
| "HasPrefix (c # cs) (p # ps) = (c = p \<and> HasPrefix cs ps)"

text \<open>
  \<open>ListBlocks\<close> streams \<open>{BlockID, Error}\<close> items over a channel; the stream is the
  list of items in the order received.
\<close>

definition ListBlocks :: "storage \<Rightarrow> string \<Rightarrow> (string \<times> error option) list \<times> storage" where
  "ListBlocks st prefix =
     (case fault st (OpListBlocks prefix) of
        Some msg \<Rightarrow> ([([], Some (StorageFailure msg))], logged (OpListBlocks prefix) st)
      | None \<Rightarrow>
          (map (\<lambda>kv. (fst kv, None)) (filter (\<lambda>kv. HasPrefix (fst kv) prefix) (blocks st)),
           logged (OpListBlocks prefix) st))"

section \<open>The vault: src/vault/vault.go\<close>

subsection \<open>Constants and data\<close>

definition formatBlockID :: string where
  "formatBlockID = ''format''"

definition repositoryConfigBlockID :: string where
  "repositoryConfigBlockID = ''repo''"

definition colocatedVaultItemPrefix :: string where
  "colocatedVaultItemPrefix = ''VLT''"

definition purposeAESKey :: bytes where
  "purposeAESKey = [0x41, 0x45, 0x53]"

definition purposeChecksumSecret :: bytes where
  "purposeChecksumSecret = [0x43, 0x48, 0x45, 0x43, 0x4B, 0x53, 0x55, 0x4D]"

record Format =
  Version :: string
  UniqueID :: bytes
  Encryption :: string
  Checksum :: string

text \<open>
  The \<open>Vault\<close> struct without its storage handle: the storage is passed to and returned
  from every operation. \<open>'rc\<close> is the decoded \<open>RepositoryConfig\<close>.
\<close>

record 'rc Vault =
  Format :: Format
  RepoConfig :: "'rc option"
  masterKey :: bytes
  itemPrefix :: string

subsection \<open>The cryptographic library\<close>

text \<open>
  The Go standard library and \<open>golang.org/x/crypto/hkdf\<close> are not code of this
  repository; the vault is modelled over any implementation of them:
  \<^item> \<open>hkdf_sha256 secret salt info\<close>: the bytes the reader \<open>hkdf.New(sha256.New, ...)\<close> yields;
  \<^item> \<open>hmac_sha256 key msg\<close>: \<open>Sum(nil)\<close> of \<open>hmac.New(sha256.New, key)\<close> after \<open>Write(msg)\<close>;
  \<^item> \<open>aes_ctr key iv i\<close>: byte \<open>i\<close> of the key stream of \<open>cipher.NewCTR\<close> over the AES
    block cipher of \<open>key\<close>.
\<close>

record crypto =
  hkdf_sha256 :: "bytes \<Rightarrow> bytes \<Rightarrow> bytes \<Rightarrow> bytes"
  hmac_sha256 :: "bytes \<Rightarrow> bytes \<Rightarrow> bytes"
  aes_ctr :: "bytes \<Rightarrow> bytes \<Rightarrow> nat \<Rightarrow> byte"

definition sha256_Size :: nat where
  "sha256_Size = 32"

definition aes_BlockSize :: nat where
  "aes_BlockSize = 16"

text \<open>\<open>io.ReadFull(r, buf)\<close> on a reader that yields \<open>stream\<close>: all of \<open>buf\<close> or an error.\<close>

definition ReadFull :: "bytes \<Rightarrow> nat \<Rightarrow> bytes option" where
  "ReadFull stream n = (if n \<le> length stream then Some (take n stream) else None)"

text \<open>Go's \<open>copy(dst, src)\<close>: the first \<open>min (len dst) (len src)\<close> bytes of \<open>dst\<close> are overwritten.\<close>

definition copy_bytes :: "bytes \<Rightarrow> bytes \<Rightarrow> bytes" where
  "copy_bytes dst src = take (length dst) src @ drop (length src) dst"

text \<open>
  \<open>ctr.XORKeyStream(dst, src)\<close> for a destination at least as long as the source (both
  call sites allocate it so): the bytes written are the source XOR the key stream.
\<close>

definition XORKeyStream :: "(nat \<Rightarrow> byte) \<Rightarrow> bytes \<Rightarrow> bytes" where
  "XORKeyStream ks src = map (\<lambda>i. (src ! i) XOR ks i) [0..<length src]"

subsection \<open>Key derivation, cipher and checksum\<close>

text \<open>
  \<open>deriveKey\<close> fills a zeroed buffer of \<open>n\<close> bytes from the HKDF reader; its callers drop
  the error, so a short read leaves the rest of the buffer zero.
\<close>

definition deriveKey :: "crypto \<Rightarrow> 'rc Vault \<Rightarrow> bytes \<Rightarrow> nat \<Rightarrow> bytes" where
  "deriveKey cr v purpose n =
     copy_bytes (replicate n 0)
       (take n (hkdf_sha256 cr (masterKey v) (UniqueID (Format v)) purpose))"

definition aes_NewCipher :: "bytes \<Rightarrow> error + bytes" where
  "aes_NewCipher k =
     (if length k = 16 \<or> length k = 24 \<or> length k = 32 then Inr k
      else Inl (KeySizeError (length k)))"

text \<open>\<open>newCipher\<close>: \<open>Inr None\<close> is the nil block of encryption "none".\<close>

definition newCipher :: "crypto \<Rightarrow> 'rc Vault \<Rightarrow> error + bytes option" where
  "newCipher cr v =
     (if Encryption (Format v) = ''none'' then Inr None
      else if Encryption (Format v) = ''aes-128'' then
        map_sum id Some (aes_NewCipher (deriveKey cr v purposeAESKey 16))
      else if Encryption (Format v) = ''aes-192'' then
        map_sum id Some (aes_NewCipher (deriveKey cr v purposeAESKey 24))
      else if Encryption (Format v) = ''aes-256'' then
        map_sum id Some (aes_NewCipher (deriveKey cr v purposeAESKey 32))
      else Inl (UnsupportedEncryption (Encryption (Format v))))"

text \<open>\<open>newChecksum\<close>: the HMAC object is its key.\<close>

definition newChecksum :: "crypto \<Rightarrow> 'rc Vault \<Rightarrow> error + bytes" where
  "newChecksum cr v =
     (if Checksum (Format v) = ''hmac-sha-256'' then
        Inr (deriveKey cr v purposeChecksumSecret 32)
      else Inl (UnsupportedChecksum (Checksum (Format v))))"

subsection \<open>Encrypting and decrypting a block\<close>

text \<open>
  Lines 58 to 85 of \<open>writeEncryptedBlock\<close>: the content handed to \<open>PutBlock\<close>.
  \<open>rnd\<close> is what \<open>rand.Reader\<close> yields.
\<close>

definition sealContent :: "crypto \<Rightarrow> bytes \<Rightarrow> 'rc Vault \<Rightarrow> bytes \<Rightarrow> error + bytes" where
  "sealContent cr rnd v content =
     (case newCipher cr v of
        Inl e \<Rightarrow> Inl e
      | Inr None \<Rightarrow> Inr content
      | Inr (Some blk) \<Rightarrow>
          (case newChecksum cr v of
             Inl e \<Rightarrow> Inl e
           | Inr hash \<Rightarrow>
               (let ivLength = aes_BlockSize;
                    ivPlusContentLength = ivLength + length content;
                    cipherText = replicate (ivPlusContentLength + sha256_Size) (0 :: byte)
                in case ReadFull rnd ivLength of
                     None \<Rightarrow> Inl RngFailure
                   | Some iv \<Rightarrow>
                       (let cipherText1 = copy_bytes cipherText iv;
                            cipherText2 = take ivLength cipherText1
                              @ copy_bytes (drop ivLength cipherText1)
                                  (XORKeyStream (aes_ctr cr blk iv) content);
                            sum = hmac_sha256 cr hash (take ivPlusContentLength cipherText2)
                        in Inr (take ivPlusContentLength cipherText2
                              @ copy_bytes (drop ivPlusContentLength cipherText2) sum)))))"

definition writeEncryptedBlock ::
  "crypto \<Rightarrow> bytes \<Rightarrow> 'rc Vault \<Rightarrow> storage \<Rightarrow> string \<Rightarrow> bytes \<Rightarrow> error option \<times> storage" where
  "writeEncryptedBlock cr rnd v st itemID content =
     (case sealContent cr rnd v content of
        Inl e \<Rightarrow> (Some e, st)
      | Inr c \<Rightarrow> PutBlock st (itemPrefix v @ itemID) c)"

text \<open>
  \<open>decryptBlock\<close>. A slice expression with a negative bound and \<open>make\<close> with a negative
  length panic in Go; both are branches here.
\<close>

definition decryptBlock :: "crypto \<Rightarrow> 'rc Vault \<Rightarrow> bytes \<Rightarrow> error + bytes" where
  "decryptBlock cr v content =
     (case newCipher cr v of
        Inl e \<Rightarrow> Inl e
      | Inr None \<Rightarrow> Inr content
      | Inr (Some blk) \<Rightarrow>
          (case newChecksum cr v of
             Inl e \<Rightarrow> Inl e
           | Inr hash \<Rightarrow>
               (let p = int (length content) - int sha256_Size
                in if p < 0 then Inl (Panic ''slice bounds out of range'')
                   else
                     (let expectedChecksum = hmac_sha256 cr hash (take (nat p) content);
                          actualChecksum = drop (nat p) content
                      in if expectedChecksum \<noteq> actualChecksum then Inl ChecksumMismatch
                         else
                           (let ivLength = aes_BlockSize;
                                n = int (length content) - int ivLength - int sha256_Size
                            in if n < 0 then Inl (Panic ''makeslice: len out of range'')
                               else
                                 (let iv = take aes_BlockSize content
                                  in Inr (XORKeyStream (aes_ctr cr blk iv)
                                            (take (nat n) (drop ivLength content)))))))))"

definition readEncryptedBlock ::
  "crypto \<Rightarrow> 'rc Vault \<Rightarrow> storage \<Rightarrow> string \<Rightarrow> (error + bytes) \<times> storage" where
  "readEncryptedBlock cr v st itemID =
     (case GetBlock st (itemPrefix v @ itemID) of
        (Inl e, st') \<Rightarrow>
          (if e = ErrBlockNotFound then (Inl ErrItemNotFound, st')
           else (Inl (UnexpectedReadError itemID e), st'))
      | (Inr content, st') \<Rightarrow> (decryptBlock cr v content, st'))"

subsection \<open>Items\<close>

definition isReservedName :: "string \<Rightarrow> bool" where
  "isReservedName itemID = (itemID = formatBlockID \<or> itemID = repositoryConfigBlockID)"

definition checkReservedName :: "string \<Rightarrow> error option" where
  "checkReservedName itemID = (if isReservedName itemID then Some (ReservedName itemID) else None)"

definition Put ::
  "crypto \<Rightarrow> bytes \<Rightarrow> 'rc Vault \<Rightarrow> storage \<Rightarrow> string \<Rightarrow> bytes \<Rightarrow> error option \<times> storage" where
  "Put cr rnd v st itemID content =
     (case checkReservedName itemID of
        Some err \<Rightarrow> (Some err, st)
      | None \<Rightarrow> writeEncryptedBlock cr rnd v st itemID content)"

definition Get :: "crypto \<Rightarrow> 'rc Vault \<Rightarrow> storage \<Rightarrow> string \<Rightarrow> (error + bytes) \<times> storage" where
  "Get cr v st itemID =
     (case checkReservedName itemID of
        Some err \<Rightarrow> (Inl err, st)
      | None \<Rightarrow> readEncryptedBlock cr v st itemID)"

definition Remove :: "'rc Vault \<Rightarrow> storage \<Rightarrow> string \<Rightarrow> error option \<times> storage" where
  "Remove v st itemID =
     (case checkReservedName itemID of
        Some err \<Rightarrow> (Some err, st)
      | None \<Rightarrow> DeleteBlock st (itemPrefix v @ itemID))"

definition TrimPrefix :: "string \<Rightarrow> string \<Rightarrow> string" where
  "TrimPrefix s prefix = (if HasPrefix s prefix then drop (length prefix) s else s)"

text \<open>
  The loop of \<open>List\<close> over the stream of \<open>ListBlocks\<close>: the result so far is returned
  with the first error item.
\<close>

fun List_loop :: "'rc Vault \<Rightarrow> (string \<times> error option) list \<Rightarrow> string list \<Rightarrow> string list \<times> error option" where
  "List_loop v [] result = (result, None)"
| "List_loop v ((blockID, Some err) # bs) result = (result, Some err)"
| "List_loop v ((blockID, None) # bs) result =
     (let itemID = TrimPrefix blockID (itemPrefix v)
      in if \<not> isReservedName itemID then List_loop v bs (result @ [itemID])
         else List_loop v bs result)"

definition List ::
  "'rc Vault \<Rightarrow> storage \<Rightarrow> string \<Rightarrow> (string list \<times> error option) \<times> storage" where
  "List v st prefix =
     (case ListBlocks st (itemPrefix v @ prefix) of
        (stream, st') \<Rightarrow> (List_loop v stream [], st'))"

subsection \<open>Opening a vault\<close>

text \<open>
  \<open>blocks[index], _ = vaultStorage.GetBlock(name)\<close>: the error is dropped and the slot
  stays nil (\<open>None\<close>) when the read fails. The four reads run concurrently in the source
  and only read, so their results do not depend on the order; they are taken in index
  order here.
\<close>

definition fetch :: "storage \<Rightarrow> string \<Rightarrow> bytes option \<times> storage" where
  "fetch st name =
     (case GetBlock st name of
        (Inl e, st') \<Rightarrow> (None, st')
      | (Inr b, st') \<Rightarrow> (Some b, st'))"

text \<open>A nil slice read as bytes is the empty slice.\<close>

definition slice_of :: "bytes option \<Rightarrow> bytes" where
  "slice_of b = (case b of None \<Rightarrow> [] | Some x \<Rightarrow> x)"

text \<open>
  \<open>Open\<close>. The JSON decoders of the format block and of the repository configuration and
  the credentials' \<open>getMasterKey\<close> are code outside \<open>vault.go\<close> and are parameters.
\<close>

definition Open ::
  "crypto \<Rightarrow> (bytes \<Rightarrow> Format option) \<Rightarrow> (bytes \<Rightarrow> 'rc option) \<Rightarrow> (bytes \<Rightarrow> bytes)
     \<Rightarrow> storage \<Rightarrow> (error + 'rc Vault) \<times> storage" where
  "Open cr unmarshalFormat unmarshalRepoConfig getMasterKey st =
     (case fetch st formatBlockID of (b0, st0) \<Rightarrow>
      case fetch st0 repositoryConfigBlockID of (b1, st1) \<Rightarrow>
      case fetch st1 (colocatedVaultItemPrefix @ formatBlockID) of (b2, st2) \<Rightarrow>
      case fetch st2 (colocatedVaultItemPrefix @ repositoryConfigBlockID) of (b3, st3) \<Rightarrow>
        (if b0 = None \<and> b2 = None then (Inl VaultFormatMissing, st3)
         else
           (let prefix = (if b0 = None then colocatedVaultItemPrefix else []);
                formatBlock = (if b0 = None then b2 else b0);
                configBlock = (if b0 = None then b3 else b1)
            in case unmarshalFormat (slice_of formatBlock) of
                 None \<Rightarrow> (Inl JSONError, st3)
               | Some f \<Rightarrow>
                   (let v = \<lparr>Format = f, RepoConfig = None,
                             masterKey = getMasterKey (UniqueID f), itemPrefix = prefix\<rparr>
                    in case decryptBlock cr v (slice_of configBlock) of
                         Inl e \<Rightarrow> (Inl e, st3)
                       | Inr cfgData \<Rightarrow>
                           (case unmarshalRepoConfig cfgData of
                              None \<Rightarrow> (Inl JSONError, st3)
                            | Some rc \<Rightarrow> (Inr (v\<lparr>RepoConfig := Some rc\<rparr>), st3))))))"

subsection \<open>Properties the theorems state, and small instances to run the model on\<close>

text \<open>
  The contract of \<open>hash.Hash\<close> the vault relies on: \<open>Sum\<close> returns \<open>Size()\<close> bytes.
\<close>

definition hash_contract :: "crypto \<Rightarrow> bool" where
  "hash_contract cr = (\<forall>k m. length (hmac_sha256 cr k m) = sha256_Size)"

text \<open>The encryptions for which \<open>newCipher\<close> returns an AES block cipher, and their key sizes.\<close>

definition aes_variant :: "string \<Rightarrow> bool" where
  "aes_variant enc = (enc = ''aes-128'' \<or> enc = ''aes-192'' \<or> enc = ''aes-256'')"

definition aes_key_size :: "string \<Rightarrow> nat" where
  "aes_key_size enc = (if enc = ''aes-128'' then 16 else if enc = ''aes-192'' then 24 else 32)"

text \<open>A block with bit \<open>i\<close> flipped (bit \<open>i mod 8\<close> of byte \<open>i div 8\<close>).\<close>

definition flip_bit_at :: "nat \<Rightarrow> bytes \<Rightarrow> bytes" where
  "flip_bit_at i c = c[i div 8 := flip_bit (i mod 8) (c ! (i div 8))]"

text \<open>
  A small implementation of the cryptographic library, on which the model can be run: the key
  derivation concatenates its inputs, the MAC is 31 zero bytes and the sum of the key and message
  bytes, the key stream adds the position to the sums of key and IV. It has the lengths of the
  real library and none of its security.
\<close>

definition toy_sum :: "bytes \<Rightarrow> byte" where
  "toy_sum bs = foldr (+) bs 0"

definition toy_crypto :: crypto where
  "toy_crypto =
     \<lparr>hkdf_sha256 = (\<lambda>secret salt info. info @ salt @ secret),
      hmac_sha256 = (\<lambda>k m. replicate 31 0 @ [toy_sum (k @ m)]),
      aes_ctr = (\<lambda>k iv i. toy_sum k + toy_sum iv + of_nat i)\<rparr>"

text \<open>
  The vault of the spec's first scenario (master key of 32 zero bytes, unique id of 32 bytes
  0x11, checksum hmac-sha-256) with a given encryption and item prefix, an empty storage, the
  plaintext "hello" and 16 bytes for the random source.
\<close>

definition toy_vault :: "string \<Rightarrow> string \<Rightarrow> unit Vault" where
  "toy_vault enc pfx =
     \<lparr>Format = \<lparr>Version = ''1'', UniqueID = replicate 32 0x11, Encryption = enc,
                 Checksum = ''hmac-sha-256''\<rparr>,
      RepoConfig = None, masterKey = replicate 32 0, itemPrefix = pfx\<rparr>"

definition empty_storage :: storage where
  "empty_storage = \<lparr>blocks = [], fault = (\<lambda>op. None), oplog = []\<rparr>"

definition hello :: bytes where
  "hello = [0x68, 0x65, 0x6C, 0x6C, 0x6F]"

definition toy_rnd :: bytes where
  "toy_rnd = map of_nat [1..<17]"

text \<open>The block \<open>sealContent\<close> makes of "hello" in this instance.\<close>

definition sealed_hello :: bytes where
  "sealed_hello = [1, 2, 3, 4, 5, 6, 7, 8, 9, 10, 11, 12, 13, 14, 15, 16, 38, 42, 60, 61,
      61, 0, 0, 0, 0, 0, 0, 0, 0, 0, 0, 0, 0, 0, 0, 0, 0, 0, 0, 0, 0, 0, 0,
      0, 0, 0, 0, 0, 0, 0, 0, 0, 121]"

text \<open>A storage without failures that holds the given blocks.\<close>

definition toy_storage :: "(string \<times> bytes) list \<Rightarrow> storage" where
  "toy_storage bs = \<lparr>blocks = bs, fault = (\<lambda>op. None), oplog = []\<rparr>"

text \<open>
  Stand-ins for the JSON decoders: a non-empty format block decodes to an unencrypted format
  whose unique id is the block, a non-empty configuration to itself.
\<close>

definition toy_unmarshalFormat :: "bytes \<Rightarrow> Format option" where
  "toy_unmarshalFormat b =
     (if b = [] then None
      else Some \<lparr>Version = ''1'', UniqueID = b, Encryption = ''none'', Checksum = ''hmac-sha-256''\<rparr>)"

definition toy_unmarshalRepoConfig :: "bytes \<Rightarrow> bytes option" where
  "toy_unmarshalRepoConfig b = (if b = [] then None else Some b)"

section \<open>The ignore engine: src/fs/ignorefs/ignorefs.go\<close>

subsection \<open>The file system and the policies it filters\<close>

text \<open>
  An \<open>fs.Entry\<close> is a file, a directory or something else; \<open>e.(fs.File)\<close> and
  \<open>e.(fs.Directory)\<close> succeed on the first two. A file carries the lines a
  \<open>bufio.Scanner\<close> reads from it (\<open>Inl\<close> when \<open>Open\<close> fails), a directory the entries
  its \<open>Readdir\<close> returns (\<open>Inl\<close> when it fails).
\<close>

datatype entry =
    EFile string int "error + string list"
  | EDir string int "error + entry list"
  | EOther string int

fun entry_Name :: "entry \<Rightarrow> string" where
  "entry_Name (EFile n s c) = n"
| "entry_Name (EDir n s c) = n"
| "entry_Name (EOther n s) = n"

fun entry_Size :: "entry \<Rightarrow> int" where
  "entry_Size (EFile n s c) = s"
| "entry_Size (EDir n s c) = s"
| "entry_Size (EOther n s) = s"

fun IsDir :: "entry \<Rightarrow> bool" where
  "IsDir (EDir n s c) = True"
| "IsDir e = False"

text \<open>
  Modelled from the spec: \<open>fs.Entries.FindByName\<close> is not in src/; the spec has the
  engine "scan entries for any file whose name matches". \<open>None\<close> is the nil entry.
\<close>

definition FindByName :: "entry list \<Rightarrow> string \<Rightarrow> entry option" where
  "FindByName entries n = find (\<lambda>e. entry_Name e = n) entries"

text \<open>
  The \<open>FilesPolicy\<close> struct is declared in another file of the package; these are the
  fields \<open>ignorefs.go\<close> reads.
\<close>

record FilesPolicy =
  DotIgnoreFiles :: "string list"
  IgnoreRules :: "string list"
  MaxFileSize :: int
  NoParentDotIgnoreFiles :: bool
  NoParentIgnoreRules :: bool

text \<open>
  An \<open>ignore.Matcher\<close> is a predicate on a path and its is-a-directory flag.
  \<open>ignore.ParseGitIgnore\<close> (package internal/ignore) is not in src/ and is a parameter
  of the model: \<open>parse baseDir rule\<close>. A callback is known by its name \<open>'cb\<close>; calling it
  appends \<open>(callback, path, entry)\<close> to the log of calls.
\<close>

type_synonym matcher = "string \<Rightarrow> bool \<Rightarrow> bool"

type_synonym gitignore_parser = "string \<Rightarrow> string \<Rightarrow> error + matcher"

type_synonym policy_getter = "string \<Rightarrow> error + FilesPolicy option"

type_synonym 'cb calls = "('cb \<times> string \<times> entry) list"

datatype 'cb ignoreContext =
  IgnoreContext
    (parent: "'cb ignoreContext option")
    (policyGetter: policy_getter)
    (onIgnore: "'cb list")
    (dotIgnoreFiles: "string list")
    (matchers: "matcher list")
    (maxFileSize: int)

definition FilesPolicyMap :: "(string \<times> FilesPolicy) list \<Rightarrow> policy_getter" where
  "FilesPolicyMap m relativePath = Inr (map_of m relativePath)"

subsection \<open>Filtering by name\<close>

fun shouldIncludeByName :: "'cb ignoreContext \<Rightarrow> string \<Rightarrow> entry \<Rightarrow> bool \<times> 'cb calls" where
  "shouldIncludeByName (IgnoreContext p pg oi dif ms mfs) path e =
     (if list_ex (\<lambda>m. m path (IsDir e)) ms then (False, map (\<lambda>cb. (cb, path, e)) oi)
      else (case p of
              None \<Rightarrow> (True, [])
            | Some c \<Rightarrow> shouldIncludeByName c path e))"

subsection \<open>Building the context of a directory\<close>

text \<open>The loop of \<open>combineAndDedupe\<close>: \<open>existing\<close> holds exactly the members of \<open>result\<close>.\<close>

fun dedupe_loop :: "string list \<Rightarrow> string list \<Rightarrow> string list" where
  "dedupe_loop result [] = result"
| "dedupe_loop result (it # rest) =
     (if List.member result it then dedupe_loop result rest
      else dedupe_loop (result @ [it]) rest)"

definition combineAndDedupe :: "string list list \<Rightarrow> string list" where
  "combineAndDedupe slices = dedupe_loop [] (concat slices)"

text \<open>\<open>strings.TrimSpace(line) == ""\<close> on ASCII text.\<close>

definition is_space :: "char \<Rightarrow> bool" where
  "is_space c = List.member [CHR '' '', CHR 0x09, CHR 0x0A, CHR 0x0B, CHR 0x0C, CHR 0x0D] c"

definition blank_line :: "string \<Rightarrow> bool" where
  "blank_line line = list_all is_space line"

text \<open>The scanner loop of \<open>parseIgnoreFile\<close>.\<close>

fun parse_lines :: "gitignore_parser \<Rightarrow> string \<Rightarrow> string list \<Rightarrow> matcher list \<Rightarrow> error + matcher list" where
  "parse_lines parse baseDir [] ms = Inr ms"
| "parse_lines parse baseDir (line # rest) ms =
     (if HasPrefix line ''#'' then parse_lines parse baseDir rest ms
      else if blank_line line then parse_lines parse baseDir rest ms
      else (case parse baseDir line of
              Inl err \<Rightarrow> Inl (Wrapf (''unable to parse ignore entry '' @ line) err)
            | Inr m \<Rightarrow> parse_lines parse baseDir rest (ms @ [m])))"

definition parseIgnoreFile :: "gitignore_parser \<Rightarrow> string \<Rightarrow> error + string list \<Rightarrow> error + matcher list" where
  "parseIgnoreFile parse baseDir file =
     (case file of
        Inl err \<Rightarrow> Inl (Wrapf ''unable to open ignore file'' err)
      | Inr ls \<Rightarrow> parse_lines parse baseDir ls [])"

text \<open>The rule loop of \<open>overrideFromPolicy\<close>.\<close>

fun append_rules :: "gitignore_parser \<Rightarrow> string \<Rightarrow> string list \<Rightarrow> matcher list \<Rightarrow> error + matcher list" where
  "append_rules parse dirPath [] ms = Inr ms"
| "append_rules parse dirPath (rule # rest) ms =
     (case parse dirPath rule of
        Inl err \<Rightarrow> Inl (Wrapf (''unable to parse ignore entry '' @ dirPath) err)
      | Inr m \<Rightarrow> append_rules parse dirPath rest (ms @ [m]))"

definition overrideFromPolicy ::
  "gitignore_parser \<Rightarrow> 'cb ignoreContext \<Rightarrow> FilesPolicy \<Rightarrow> string \<Rightarrow> error + 'cb ignoreContext" where
  "overrideFromPolicy parse c policy dirPath =
     (let dif1 = (if NoParentDotIgnoreFiles policy then [] else dotIgnoreFiles c);
          ms1 = (if NoParentIgnoreRules policy then [] else matchers c);
          dif2 = combineAndDedupe [dif1, DotIgnoreFiles policy];
          mfs = (if MaxFileSize policy \<noteq> 0 then MaxFileSize policy else maxFileSize c)
      in case append_rules parse dirPath (IgnoreRules policy) ms1 of
           Inl err \<Rightarrow> Inl err
         | Inr ms2 \<Rightarrow> Inr (IgnoreContext (parent c) (policyGetter c) (onIgnore c) dif2 ms2 mfs))"

fun loadDotIgnoreFiles ::
  "gitignore_parser \<Rightarrow> 'cb ignoreContext \<Rightarrow> string \<Rightarrow> entry list \<Rightarrow> string list \<Rightarrow> error + 'cb ignoreContext" where
  "loadDotIgnoreFiles parse c dirPath entries [] = Inr c"
| "loadDotIgnoreFiles parse c dirPath entries (dotIgnoreFile # rest) =
     (case FindByName entries dotIgnoreFile of
        None \<Rightarrow> loadDotIgnoreFiles parse c dirPath entries rest
      | Some (EFile n s f) \<Rightarrow>
          (case parseIgnoreFile parse dirPath f of
             Inl err \<Rightarrow> Inl (Wrapf (''unable to parse ignore file '' @ n) err)
           | Inr ms \<Rightarrow>
               loadDotIgnoreFiles parse
                 (IgnoreContext (parent c) (policyGetter c) (onIgnore c) (dotIgnoreFiles c)
                    (matchers c @ ms) (maxFileSize c))
                 dirPath entries rest)
      | Some e \<Rightarrow> loadDotIgnoreFiles parse c dirPath entries rest)"

text \<open>
  Lines 125 to 143 of \<open>buildContext\<close>: the fresh child context, built when a policy or a
  dotfile applies. \<open>newic\<close> starts with no matchers of its own.
\<close>

definition newContext ::
  "gitignore_parser \<Rightarrow> string \<Rightarrow> 'cb ignoreContext \<Rightarrow> entry list \<Rightarrow> FilesPolicy option
     \<Rightarrow> string list \<Rightarrow> error + 'cb ignoreContext" where
  "newContext parse relativePath parentContext entries policy effectiveDotIgnoreFiles =
     (let newic = IgnoreContext (Some parentContext) (policyGetter parentContext)
                    (onIgnore parentContext) effectiveDotIgnoreFiles [] (maxFileSize parentContext)
      in case (case policy of
                 None \<Rightarrow> Inr newic
               | Some pol \<Rightarrow> overrideFromPolicy parse newic pol relativePath) of
           Inl err \<Rightarrow> Inl err
         | Inr newic' \<Rightarrow>
             loadDotIgnoreFiles parse newic' relativePath entries effectiveDotIgnoreFiles)"

definition buildContext ::
  "gitignore_parser \<Rightarrow> string \<Rightarrow> 'cb ignoreContext \<Rightarrow> entry list \<Rightarrow> error + 'cb ignoreContext" where
  "buildContext parse relativePath parentContext entries =
     (case policyGetter parentContext relativePath of
        Inl err \<Rightarrow> Inl (Wrapf (''unable to get policy for '' @ relativePath) err)
      | Inr policy \<Rightarrow>
          (let effectiveDotIgnoreFiles =
                 (case policy of
                    None \<Rightarrow> dotIgnoreFiles parentContext
                  | Some pol \<Rightarrow> DotIgnoreFiles pol);
               foundDotIgnoreFiles =
                 list_ex (\<lambda>dotfile. FindByName entries dotfile \<noteq> None) effectiveDotIgnoreFiles
           in if \<not> foundDotIgnoreFiles \<and> policy = None then Inr parentContext
              else newContext parse relativePath parentContext entries policy
                     effectiveDotIgnoreFiles))"

subsection \<open>Readdir\<close>

text \<open>
  An entry of the result: as it came, or a directory wrapped into an \<open>ignoreDirectory\<close>
  with its relative path and the context of the directory that lists it.
\<close>

datatype 'cb listed =
    Plain entry
  | Wrapped string "'cb ignoreContext" entry

fun unwrapped :: "'cb listed \<Rightarrow> entry" where
  "unwrapped (Plain e) = e"
| "unwrapped (Wrapped p c e) = e"

text \<open>The loop of \<open>Readdir\<close> over the entries, with the calls made to the callbacks.\<close>

fun filter_entries ::
  "string \<Rightarrow> 'cb ignoreContext \<Rightarrow> entry list \<Rightarrow> 'cb listed list \<times> 'cb calls" where
  "filter_entries relativePath thisContext [] = ([], [])"
| "filter_entries relativePath thisContext (e # es) =
     (case shouldIncludeByName thisContext (relativePath @ ''/'' @ entry_Name e) e of
        (inc, calls) \<Rightarrow>
          (case filter_entries relativePath thisContext es of
             (result, calls') \<Rightarrow>
               (if \<not> inc then (result, calls @ calls')
                else if maxFileSize thisContext > 0 \<and> entry_Size e > maxFileSize thisContext
                  then (result, calls @ calls')
                else (case e of
                        EDir n s c \<Rightarrow>
                          (Wrapped (relativePath @ ''/'' @ entry_Name e) thisContext e # result,
                           calls @ calls')
                      | _ \<Rightarrow> (Plain e # result, calls @ calls')))))"

text \<open>
  \<open>Readdir\<close> of the \<open>ignoreDirectory {relativePath, parentContext, dir}\<close>; \<open>dir\<close> is what
  the wrapped directory's own \<open>Readdir\<close> returns.
\<close>

definition Readdir ::
  "gitignore_parser \<Rightarrow> string \<Rightarrow> 'cb ignoreContext \<Rightarrow> error + entry list
     \<Rightarrow> (error + 'cb listed list) \<times> 'cb calls" where
  "Readdir parse relativePath parentContext dir =
     (case dir of
        Inl err \<Rightarrow> (Inl err, [])
      | Inr entries \<Rightarrow>
          (case buildContext parse relativePath parentContext entries of
             Inl err \<Rightarrow> (Inl err, [])
           | Inr thisContext \<Rightarrow>
               (case filter_entries relativePath thisContext entries of
                  (result, calls) \<Rightarrow> (Inr result, calls))))"

text \<open>\<open>New\<close> with its options applied: the root context and the root path.\<close>

definition rootContext :: "policy_getter \<Rightarrow> 'cb list \<Rightarrow> 'cb ignoreContext" where
  "rootContext pg callbacks = IgnoreContext None pg callbacks [] [] 0"

text \<open>
  \<open>Readdir\<close> called on an entry that \<open>Readdir\<close> returned, as a walker of the tree does on
  a wrapped directory.
\<close>

fun Readdir_listed ::
  "gitignore_parser \<Rightarrow> 'cb listed \<Rightarrow> (error + 'cb listed list) \<times> 'cb calls" where
  "Readdir_listed parse (Wrapped p c (EDir n s l)) = Readdir parse p c l"
| "Readdir_listed parse e = (Inl (ExternalError ''not a directory''), [])"

subsection \<open>A small tree and parser, to run the engine on\<close>

text \<open>
  A stand-in for \<open>ignore.ParseGitIgnore\<close>: the rule \<open>r\<close> declared in \<open>baseDir\<close> matches the
  paths below \<open>baseDir\<close> whose last component is \<open>r\<close>, as a gitignore pattern without a
  slash does.
\<close>

definition toy_parse :: gitignore_parser where
  "toy_parse baseDir rule =
     (if rule = [] then Inl (ExternalError ''empty rule'')
      else Inr (\<lambda>path isDir. HasPrefix path (baseDir @ ''/'')
                             \<and> HasPrefix (rev path) (rev (''/'' @ rule))))"

text \<open>
  The root policy ignores \<open>secret\<close>; the policy of \<open>./sub\<close> sets \<open>NoParentIgnoreRules\<close>.
  The root holds the directory \<open>sub\<close>, which holds the files \<open>secret\<close> and \<open>keep\<close>.
\<close>

definition no_policy :: FilesPolicy where
  "no_policy = \<lparr>DotIgnoreFiles = [], IgnoreRules = [], MaxFileSize = 0,
                 NoParentDotIgnoreFiles = False, NoParentIgnoreRules = False\<rparr>"

definition toy_policies :: policy_getter where
  "toy_policies = FilesPolicyMap
     [(''.'', no_policy\<lparr>IgnoreRules := [''secret'']\<rparr>),
      (''./sub'', no_policy\<lparr>NoParentIgnoreRules := True\<rparr>)]"

definition toy_sub :: "entry list" where
  "toy_sub = [EFile ''secret'' 1 (Inr []), EFile ''keep'' 1 (Inr [])]"

definition toy_root :: "entry list" where
  "toy_root = [EDir ''sub'' 0 (Inr toy_sub)]"

text \<open>
  A context with one callback that ignores every path ending in \<open>/secret\<close> and looks for
  the dotfile \<open>.kopiaignore\<close>; its policy getter knows no policy.
\<close>

definition toy_context :: "nat ignoreContext" where
  "toy_context =
     IgnoreContext None (FilesPolicyMap []) [7] [''.kopiaignore'']
       [\<lambda>path isDir. HasPrefix (rev path) (rev ''/secret'')] 0"

subsection \<open>Contexts that filter alike\<close>

text \<open>
  Two contexts filter alike: they admit the same entries with the same callback calls and agree
  on everything a directory below them inherits.
\<close>

definition same_filtering :: "'cb ignoreContext \<Rightarrow> 'cb ignoreContext \<Rightarrow> bool" where
  "same_filtering c c' =
     ((\<forall>path e. shouldIncludeByName c path e = shouldIncludeByName c' path e)
      \<and> maxFileSize c = maxFileSize c' \<and> dotIgnoreFiles c = dotIgnoreFiles c'
      \<and> onIgnore c = onIgnore c' \<and> policyGetter c = policyGetter c')"

text \<open>Two results of \<open>Readdir\<close> are alike: the same entries, wrapped with contexts that filter alike.\<close>

fun same_listed :: "'cb listed \<Rightarrow> 'cb listed \<Rightarrow> bool" where
  "same_listed (Plain e) (Plain e') = (e = e')"
| "same_listed (Wrapped p c e) (Wrapped p' c' e') = (p = p' \<and> e = e' \<and> same_filtering c c')"
| "same_listed x y = False"

text \<open>A context under another parent.\<close>

definition reparent :: "'cb ignoreContext option \<Rightarrow> 'cb ignoreContext \<Rightarrow> 'cb ignoreContext" where
  "reparent p c =
     IgnoreContext p (policyGetter c) (onIgnore c) (dotIgnoreFiles c) (matchers c) (maxFileSize c)"

section \<open>The incremental uploader: package dir (src/unnamed/part_000)\<close>

subsection \<open>Listings\<close>

type_synonym ObjectID = string

definition NullObjectID :: ObjectID where
  "NullObjectID = []"

datatype EntryType = EntryTypeFile | EntryTypeDirectory | EntryTypeSymlink | EntryTypeOther

text \<open>
  Modelled from the spec: the \<open>Entry\<close> and \<open>Listing\<close> types of package dir are not in src/.
  The spec gives an entry a name, a type, a size, mode bits, a modification time, an owner and
  group and, once known, a content identifier. A \<open>Listing\<close> is the list of its entries;
  the uploader's loop assigns \<open>e.ObjectID\<close> in the listing it then serialises.
\<close>

record Entry =
  Name :: string
  Type :: EntryType
  Size :: int
  Mode :: nat
  ModTime :: int
  OwnerID :: nat
  GroupID :: nat
  ObjectID :: ObjectID

text \<open>
  Modelled from the spec: \<open>Listing.FindEntryName\<close> is not in src/; it locates "the cached
  entry with the same name (possibly absent)".
\<close>

definition FindEntryName :: "Entry list \<Rightarrow> string \<Rightarrow> Entry option" where
  "FindEntryName entries n = find (\<lambda>e. Name e = n) entries"

text \<open>
  Modelled from the spec: \<open>Entry.metadataEquals\<close> is not in src/; the spec's
  \<open>metadata_matches\<close> is: the cached entry exists and type, size, mode, modification time and
  owner are equal.
\<close>

definition metadataEquals :: "Entry \<Rightarrow> Entry option \<Rightarrow> bool" where
  "metadataEquals e other =
     (case other of
        None \<Rightarrow> False
      | Some c \<Rightarrow> Type e = Type c \<and> Size e = Size c \<and> Mode e = Mode c
                 \<and> ModTime e = ModTime c \<and> OwnerID e = OwnerID c \<and> GroupID e = GroupID c)"

subsection \<open>What the uploader runs on\<close>

text \<open>
  The content-addressed store (package cas) is not in src/. Its state is the objects it
  holds and the descriptions of the writers opened so far. How it names an object
  (\<open>object_id blockNamePrefix content\<close>) and when a writer's \<open>Result\<close> fails are parameters.
\<close>

record ObjectManager =
  object_id :: "string \<Rightarrow> bytes \<Rightarrow> ObjectID"
  result_error :: "string \<Rightarrow> bytes \<Rightarrow> error option"

record cas =
  objects :: "(ObjectID \<times> bytes) list"
  writers :: "string list"

definition NewWriter :: "cas \<Rightarrow> string \<Rightarrow> cas" where
  "NewWriter st description = st\<lparr>writers := writers st @ [description]\<rparr>"

text \<open>\<open>writer.Result\<close> of a writer that was given \<open>content\<close>.\<close>

definition writer_Result ::
  "ObjectManager \<Rightarrow> cas \<Rightarrow> string \<Rightarrow> string \<Rightarrow> bytes \<Rightarrow> (ObjectID \<times> error option) \<times> cas" where
  "writer_Result m st description blockNamePrefix content =
     (case result_error m description content of
        Some err \<Rightarrow> ((NullObjectID, Some err), st)
      | None \<Rightarrow>
          ((object_id m blockNamePrefix content, None),
           st\<lparr>objects := AList.update (object_id m blockNamePrefix content) content (objects st)\<rparr>))"

definition mgr_Open :: "cas \<Rightarrow> ObjectID \<Rightarrow> error + bytes" where
  "mgr_Open st oid =
     (case map_of (objects st) oid of
        None \<Rightarrow> Inl (ExternalError ''object not found'')
      | Some content \<Rightarrow> Inr content)"

text \<open>
  The \<open>uploader\<close> struct: the object manager, the lister (\<open>List(path)\<close> returns the entries
  of a directory or an error) and the cancellation flag as it stands during the run.
\<close>

record uploader =
  mgr :: ObjectManager
  lister :: "string \<Rightarrow> error + Entry list"
  cancelled :: bool

text \<open>
  Outside the uploader: \<open>os.Open\<close> with the bytes the file then yields (up to the end of the
  file, or up to a read error), and the directory format of package dir, \<open>ReadDir\<close> and
  \<open>WriteDir\<close>, which are not in src/.
\<close>

record outside =
  os_Open :: "string \<Rightarrow> error + bytes \<times> error option"
  ReadDir :: "bytes \<Rightarrow> Entry list \<times> error option"
  WriteDir :: "Entry list \<Rightarrow> bytes"

text \<open>\<open>filepath.Join(path, name)\<close> for a clean, non-empty \<open>path\<close> and a plain \<open>name\<close>.\<close>

definition filepath_Join :: "string \<Rightarrow> string \<Rightarrow> string" where
  "filepath_Join path n = path @ ''/'' @ n"

subsection \<open>UploadFile\<close>

text \<open>
  \<open>io.Copy(writer, file)\<close> hands the writer every byte read before the end of the file or
  a read error; its results are dropped.
\<close>

definition UploadFile ::
  "outside \<Rightarrow> uploader \<Rightarrow> cas \<Rightarrow> string \<Rightarrow> (ObjectID \<times> error option) \<times> cas" where
  "UploadFile w u st path =
     (case os_Open w path of
        Inl err \<Rightarrow> ((NullObjectID, Some (UnableToOpenFile path err)), st)
      | Inr (content, read_error) \<Rightarrow>
          (case writer_Result (mgr u) (NewWriter st (''FILE:'' @ path)) (''FILE:'' @ path) ''F'' content of
             ((result, Some err), st') \<Rightarrow> ((NullObjectID, Some err), st')
           | ((result, None), st') \<Rightarrow> ((result, None), st')))"

subsection \<open>UploadDir\<close>

text \<open>
  \<open>UploadDir\<close> recurses along the paths the lister returns, which need not end; the model
  takes the depth it may descend as fuel, and \<open>None\<close> is running out of it.
  \<open>upload_entries\<close> is the loop over \<open>listing.Entries\<close>: it returns the final
  \<open>directoryMatchesCache\<close> and the entries with their \<open>ObjectID\<close> assigned, or the error
  the loop returned with.
\<close>

fun UploadDir ::
  "nat \<Rightarrow> outside \<Rightarrow> uploader \<Rightarrow> cas \<Rightarrow> string \<Rightarrow> ObjectID
     \<Rightarrow> ((ObjectID \<times> error option) \<times> cas) option"
and upload_entries ::
  "nat \<Rightarrow> outside \<Rightarrow> uploader \<Rightarrow> cas \<Rightarrow> string \<Rightarrow> Entry list \<Rightarrow> bool \<Rightarrow> Entry list
     \<Rightarrow> ((error + bool \<times> Entry list) \<times> cas) option"
where
  "UploadDir 0 w u st path previous = None"
| "UploadDir (Suc n) w u st path previous =
     (if cancelled u then Some ((previous, Some ErrUploadCancelled), st)
      else
        (case lister u path of
           Inl err \<Rightarrow> Some ((NullObjectID, Some err), st)
         | Inr listing \<Rightarrow>
             (let cached =
                    (if previous \<noteq> [] then
                       (case mgr_Open st previous of
                          Inr r \<Rightarrow> fst (ReadDir w r)
                        | Inl err \<Rightarrow> [])
                     else []);
                  directoryMatchesCache = (length cached = length listing)
              in case upload_entries n w u st path cached directoryMatchesCache listing of
                   None \<Rightarrow> None
                 | Some (Inl err, st') \<Rightarrow> Some ((NullObjectID, Some err), st')
                 | Some (Inr (directoryMatchesCache', listing'), st') \<Rightarrow>
                     (if directoryMatchesCache' \<and> previous \<noteq> [] then Some ((previous, None), st')
                      else Some (writer_Result (mgr u) (NewWriter st' (''DIR:'' @ path))
                                   (''DIR:'' @ path) ''D'' (WriteDir w listing'))))))"
| "upload_entries n w u st path cached directoryMatchesCache [] =
     Some (Inr (directoryMatchesCache, []), st)"
| "upload_entries n w u st path cached directoryMatchesCache (e # es) =
     (let fullPath = filepath_Join path (Name e);
          cachedEntry = FindEntryName cached (Name e);
          cachedMetadataMatches = metadataEquals e cachedEntry;
          dmc = (directoryMatchesCache \<and> cachedMetadataMatches)
      in if Type e = EntryTypeDirectory then
           (let previousSubdirObjectID =
                  (case cachedEntry of None \<Rightarrow> [] | Some c \<Rightarrow> ObjectID c)
            in case UploadDir n w u st fullPath previousSubdirObjectID of
                 None \<Rightarrow> None
               | Some ((oid, Some err), st1) \<Rightarrow> Some (Inl err, st1)
               | Some ((oid, None), st1) \<Rightarrow>
                   (let dmc' = (case cachedEntry of
                                  None \<Rightarrow> dmc
                                | Some c \<Rightarrow> (if oid \<noteq> ObjectID c then False else dmc))
                    in case upload_entries n w u st1 path cached dmc' es of
                         None \<Rightarrow> None
                       | Some (Inl err, st2) \<Rightarrow> Some (Inl err, st2)
                       | Some (Inr (d, es'), st2) \<Rightarrow>
                           Some (Inr (d, e\<lparr>ObjectID := oid\<rparr> # es'), st2)))
         else if cachedMetadataMatches then
           (case cachedEntry of
              None \<Rightarrow> Some (Inl (Panic ''nil pointer dereference''), st)
            | Some c \<Rightarrow>
                (case upload_entries n w u st path cached dmc es of
                   None \<Rightarrow> None
                 | Some (Inl err, st2) \<Rightarrow> Some (Inl err, st2)
                 | Some (Inr (d, es'), st2) \<Rightarrow>
                     Some (Inr (d, e\<lparr>ObjectID := ObjectID c\<rparr> # es'), st2)))
         else
           (case UploadFile w u st fullPath of
              ((oid, Some err), st1) \<Rightarrow> Some (Inl (UnableToHashFile err), st1)
            | ((oid, None), st1) \<Rightarrow>
                (case upload_entries n w u st1 path cached dmc es of
                   None \<Rightarrow> None
                 | Some (Inl err, st2) \<Rightarrow> Some (Inl err, st2)
                 | Some (Inr (d, es'), st2) \<Rightarrow>
                     Some (Inr (d, e\<lparr>ObjectID := oid\<rparr> # es'), st2))))"

subsection \<open>What an unchanged tree is uploaded into\<close>

text \<open>
  The store names objects without collisions: two contents with one name are equal, and no
  name is the null identifier.
\<close>

definition naming_injective :: "ObjectManager \<Rightarrow> bool" where
  "naming_injective m =
     ((\<forall>p c p' c'. object_id m p c = object_id m p' c' \<longrightarrow> c = c')
      \<and> (\<forall>p c. object_id m p c \<noteq> NullObjectID))"

text \<open>Every object of the store is kept under a name the store gives its content.\<close>

definition cas_consistent :: "ObjectManager \<Rightarrow> cas \<Rightarrow> bool" where
  "cas_consistent m st =
     (\<forall>oid c. map_of (objects st) oid = Some c \<longrightarrow> (\<exists>p. oid = object_id m p c))"

definition store_le :: "cas \<Rightarrow> cas \<Rightarrow> bool" where
  "store_le st st' = (map_of (objects st) \<subseteq>\<^sub>m map_of (objects st'))"

text \<open>\<open>ReadDir\<close> reads back what \<open>WriteDir\<close> wrote.\<close>

definition codec_roundtrip :: "outside \<Rightarrow> bool" where
  "codec_roundtrip w = (\<forall>l. ReadDir w (WriteDir w l) = (l, None))"

text \<open>A directory has no two entries of one name.\<close>

definition names_distinct :: "uploader \<Rightarrow> bool" where
  "names_distinct u = (\<forall>p l. lister u p = Inr l \<longrightarrow> distinct (map Name l))"

subsection \<open>A small directory format and store, to run the uploader on\<close>

text \<open>
  A directory format: an entry is the list of numbers (length of the name, its characters,
  type, size, mode, modification time, owner, group, length of the identifier, its
  characters), a number \<open>n\<close> is \<open>n\<close> bytes 1 and a byte 0.
\<close>

definition nat_bytes :: "nat \<Rightarrow> bytes" where
  "nat_bytes n = replicate n 1 @ [0]"

definition nats_bytes :: "nat list \<Rightarrow> bytes" where
  "nats_bytes ns = concat (map nat_bytes ns)"

fun bytes_nats :: "nat \<Rightarrow> bytes \<Rightarrow> nat list" where
  "bytes_nats acc [] = []"
| "bytes_nats acc (b # bs) = (if b = 0 then acc # bytes_nats 0 bs else bytes_nats (Suc acc) bs)"

fun type_code :: "EntryType \<Rightarrow> nat" where
  "type_code EntryTypeFile = 0"
| "type_code EntryTypeDirectory = 1"
| "type_code EntryTypeSymlink = 2"
| "type_code EntryTypeOther = 3"

definition code_type :: "nat \<Rightarrow> EntryType" where
  "code_type n =
     (if n = 0 then EntryTypeFile else if n = 1 then EntryTypeDirectory
      else if n = 2 then EntryTypeSymlink else EntryTypeOther)"

definition int_nat :: "int \<Rightarrow> nat" where
  "int_nat i = (if 0 \<le> i then 2 * nat i else 2 * nat (- i) + 1)"

definition nat_int :: "nat \<Rightarrow> int" where
  "nat_int n = (if even n then int (n div 2) else - int (n div 2))"

definition entry_nats :: "Entry \<Rightarrow> nat list" where
  "entry_nats e =
     length (Name e) # map of_char (Name e)
     @ [type_code (Type e), int_nat (Size e), Mode e, int_nat (ModTime e), OwnerID e, GroupID e,
        length (ObjectID e)]
     @ map of_char (ObjectID e)"

function nats_entries :: "nat list \<Rightarrow> Entry list" where
  "nats_entries [] = []"
| "nats_entries (n # rest) =
     (case drop n rest of
        t # s # m # mt # ow # g # k # rest2 \<Rightarrow>
          \<lparr>Name = map char_of (take n rest), Type = code_type t, Size = nat_int s, Mode = m,
           ModTime = nat_int mt, OwnerID = ow, GroupID = g,
           ObjectID = map char_of (take k rest2)\<rparr>
          # nats_entries (drop k rest2)
      | _ \<Rightarrow> [])"
  by pat_completeness auto

termination
proof (relation "measure length")
  show "wf (measure length)" by simp
next
  fix n :: nat and rest x21 x22 x21a x22a x21b x22b x21c x22c x21d x22d x21e x22e x21f x22f
  assume "drop n rest = x21 # x22" "x22 = x21a # x22a" "x22a = x21b # x22b" "x22b = x21c # x22c"
    "x22c = x21d # x22d" "x22d = x21e # x22e" "x22e = x21f # (x22f :: nat list)"
  then have "length (drop n rest) = 7 + length x22f" by simp
  then have "length x22f < length rest" by simp
  then show "(drop x21f x22f, n # rest) \<in> measure length" by simp
qed

definition toy_WriteDir :: "Entry list \<Rightarrow> bytes" where
  "toy_WriteDir l = nats_bytes (concat (map entry_nats l))"

definition toy_ReadDir :: "bytes \<Rightarrow> Entry list \<times> error option" where
  "toy_ReadDir b = (nats_entries (bytes_nats 0 b), None)"

text \<open>A store that names an object by its content and whose writers never fail.\<close>

definition toy_object_id :: "string \<Rightarrow> bytes \<Rightarrow> ObjectID" where
  "toy_object_id p c = CHR ''#'' # map (\<lambda>b. char_of (unat b)) c"

definition toy_mgr :: ObjectManager where
  "toy_mgr = \<lparr>object_id = toy_object_id, result_error = (\<lambda>d c. None)\<rparr>"

text \<open>
  The tree \<open>/r\<close> with the file \<open>a\<close> and the directory \<open>sub\<close>, which holds the file \<open>b\<close>;
  reading \<open>/r/bad\<close> fails after two bytes.
\<close>

definition toy_entry :: "string \<Rightarrow> EntryType \<Rightarrow> int \<Rightarrow> Entry" where
  "toy_entry n t s =
     \<lparr>Name = n, Type = t, Size = s, Mode = 4, ModTime = 5, OwnerID = 1, GroupID = 1,
      ObjectID = []\<rparr>"

definition toy_lister :: "string \<Rightarrow> error + Entry list" where
  "toy_lister path =
     (if path = ''/r'' then
        Inr [toy_entry ''a'' EntryTypeFile 2, toy_entry ''sub'' EntryTypeDirectory 0]
      else if path = ''/r/sub'' then Inr [toy_entry ''b'' EntryTypeFile 1]
      else Inl (ExternalError ''no such directory''))"

definition toy_files :: "string \<Rightarrow> error + bytes \<times> error option" where
  "toy_files path =
     (if path = ''/r/a'' then Inr ([1, 2], None)
      else if path = ''/r/sub/b'' then Inr ([3], None)
      else if path = ''/r/bad'' then Inr ([9, 9], Some (ExternalError ''read failed''))
      else Inl (ExternalError ''no such file''))"

definition toy_outside :: outside where
  "toy_outside = \<lparr>os_Open = toy_files, ReadDir = toy_ReadDir, WriteDir = toy_WriteDir\<rparr>"

definition toy_uploader :: uploader where
  "toy_uploader = \<lparr>mgr = toy_mgr, lister = toy_lister, cancelled = False\<rparr>"

definition empty_cas :: cas where
  "empty_cas = \<lparr>objects = [], writers = []\<rparr>"

section \<open>Properties of the vault\<close>

lemma length_copy_bytes: "length (copy_bytes dst src) = length dst"
  by (simp add: copy_bytes_def)

lemma length_deriveKey: "length (deriveKey cr v purpose n) = n"
  by (simp add: deriveKey_def length_copy_bytes)

lemma length_XORKeyStream: "length (XORKeyStream ks src) = length src"
  by (simp add: XORKeyStream_def)

lemma XORKeyStream_involution: "XORKeyStream ks (XORKeyStream ks src) = src"
  by (rule nth_equalityI) (simp_all add: XORKeyStream_def xor.assoc)

lemma newCipher_aes:
  "aes_variant (Encryption (Format v)) \<Longrightarrow>
   newCipher cr v = Inr (Some (deriveKey cr v purposeAESKey (aes_key_size (Encryption (Format v)))))"
  by (auto simp: aes_variant_def newCipher_def aes_NewCipher_def length_deriveKey aes_key_size_def)

lemma newCipher_none: "Encryption (Format v) = ''none'' \<Longrightarrow> newCipher cr v = Inr None"
  by (simp add: newCipher_def)

lemma newChecksum_hmac:
  "Checksum (Format v) = ''hmac-sha-256'' \<Longrightarrow>
   newChecksum cr v = Inr (deriveKey cr v purposeChecksumSecret 32)"
  by (simp add: newChecksum_def)

lemma copy_bytes_exact: "length src = length dst \<Longrightarrow> copy_bytes dst src = src"
  by (simp add: copy_bytes_def)

lemma copy_bytes_prefix:
  "length src \<le> length dst \<Longrightarrow> copy_bytes dst src = src @ drop (length src) dst"
  by (simp add: copy_bytes_def)

lemma copy_bytes_replicate:
  "length src \<le> n \<Longrightarrow> copy_bytes (replicate n (0::byte)) src = src @ replicate (n - length src) 0"
  by (simp add: copy_bytes_def)

lemma sealContent_aes:
  assumes "aes_variant (Encryption (Format v))"
    and "Checksum (Format v) = ''hmac-sha-256''"
    and "hash_contract cr"
    and "16 \<le> length rnd"
  shows "sealContent cr rnd v content =
     Inr (take 16 rnd
          @ XORKeyStream (aes_ctr cr (deriveKey cr v purposeAESKey (aes_key_size (Encryption (Format v)))) (take 16 rnd)) content
          @ hmac_sha256 cr (deriveKey cr v purposeChecksumSecret 32)
              (take 16 rnd @ XORKeyStream (aes_ctr cr (deriveKey cr v purposeAESKey (aes_key_size (Encryption (Format v)))) (take 16 rnd)) content))"
proof -
  let ?iv = "take 16 rnd"
  let ?k = "deriveKey cr v purposeAESKey (aes_key_size (Encryption (Format v)))"
  let ?body = "XORKeyStream (aes_ctr cr ?k ?iv) content"
  let ?mk = "deriveKey cr v purposeChecksumSecret 32"
  have liv: "length ?iv = 16" using assms(4) by simp
  have lb: "length ?body = length content" by (simp add: length_XORKeyStream)
  have lh: "\<And>m. length (hmac_sha256 cr ?mk m) = 32"
    using assms(3) by (simp add: hash_contract_def sha256_Size_def)
  define c1 where "c1 = copy_bytes (replicate (16 + length content + 32) (0::byte)) ?iv"
  have c1: "c1 = ?iv @ replicate (length content + 32) 0"
    unfolding c1_def using liv by (simp add: copy_bytes_replicate)
  define c2 where "c2 = take 16 c1 @ copy_bytes (drop 16 c1) ?body"
  have c2: "c2 = ?iv @ ?body @ replicate 32 0"
    unfolding c2_def c1 using liv lb by (simp add: copy_bytes_replicate)
  have t2: "take (16 + length content) c2 = ?iv @ ?body"
    unfolding c2 using liv lb by simp
  have d2: "drop (16 + length content) c2 = replicate 32 0"
    unfolding c2 using liv lb by simp
  have c3: "copy_bytes (replicate 32 (0::byte)) (hmac_sha256 cr ?mk (?iv @ ?body))
            = hmac_sha256 cr ?mk (?iv @ ?body)"
    by (simp add: copy_bytes_replicate lh)
  have "sealContent cr rnd v content =
      Inr (take (16 + length content) c2
           @ copy_bytes (drop (16 + length content) c2)
               (hmac_sha256 cr ?mk (take (16 + length content) c2)))"
    using assms(4)
    by (simp add: sealContent_def newCipher_aes[OF assms(1)] newChecksum_hmac[OF assms(2)]
        ReadFull_def aes_BlockSize_def sha256_Size_def Let_def c2_def c1_def)
  then show ?thesis
    by (simp only: t2 d2 c3 append_assoc)
qed

lemma decryptBlock_sealed:
  assumes "aes_variant (Encryption (Format v))"
    and "Checksum (Format v) = ''hmac-sha-256''"
    and "length iv = 16"
    and "length tag = 32"
    and "k = deriveKey cr v purposeAESKey (aes_key_size (Encryption (Format v)))"
    and "mk = deriveKey cr v purposeChecksumSecret 32"
  shows "decryptBlock cr v (iv @ body @ tag) =
     (if hmac_sha256 cr mk (iv @ body) \<noteq> tag then Inl ChecksumMismatch
      else Inr (XORKeyStream (aes_ctr cr k iv) body))"
  using assms
  by (simp add: decryptBlock_def newCipher_aes[OF assms(1)] newChecksum_hmac[OF assms(2)]
        aes_BlockSize_def sha256_Size_def Let_def)

lemma hash_contract_toy: "hash_contract toy_crypto"
  by (simp add: hash_contract_def toy_crypto_def sha256_Size_def)

lemma flip_bit_byte_neq: "n < 8 \<Longrightarrow> flip_bit n (b::byte) \<noteq> b"
proof
  assume n: "n < 8" and eq: "flip_bit n b = b"
  have "bit (flip_bit n b) n = (\<not> bit b n)"
    using n by (simp add: bit_flip_bit_iff)
  with eq show False by simp
qed

lemma flip_bit_at_length: "length (flip_bit_at i c) = length c"
  by (simp add: flip_bit_at_def)

lemma flip_bit_at_neq: "i < 8 * length c \<Longrightarrow> flip_bit_at i c \<noteq> c"
proof
  assume i: "i < 8 * length c" and eq: "flip_bit_at i c = c"
  have j: "i div 8 < length c" using i by simp
  have "flip_bit_at i c ! (i div 8) = flip_bit (i mod 8) (c ! (i div 8))"
    using j by (simp add: flip_bit_at_def)
  with eq have "flip_bit (i mod 8) (c ! (i div 8)) = c ! (i div 8)" by simp
  then show False using flip_bit_byte_neq[of "i mod 8"] by simp
qed

lemma flip_bit_at_take: "8 * n \<le> i \<Longrightarrow> take n (flip_bit_at i c) = take n c"
  by (simp add: flip_bit_at_def)

lemma flip_bit_at_drop: "i < 8 * n \<Longrightarrow> drop n (flip_bit_at i c) = drop n c"
  by (simp add: flip_bit_at_def)

lemma decryptBlock_long:
  assumes "aes_variant (Encryption (Format v))"
    and "Checksum (Format v) = ''hmac-sha-256''"
    and "32 \<le> length c"
  shows "decryptBlock cr v c =
     (if hmac_sha256 cr (deriveKey cr v purposeChecksumSecret 32) (take (length c - 32) c)
           \<noteq> drop (length c - 32) c
      then Inl ChecksumMismatch
      else if length c < 48 then Inl (Panic ''makeslice: len out of range'')
      else Inr (XORKeyStream
                  (aes_ctr cr (deriveKey cr v purposeAESKey (aes_key_size (Encryption (Format v))))
                     (take 16 c))
                  (take (length c - 48) (drop 16 c))))"
proof -
  have p: "nat (int (length c) - 32) = length c - 32" by simp
  have n: "nat (int (length c) - 48) = length c - 48" by simp
  show ?thesis
    using assms(3)
    by (simp add: decryptBlock_def newCipher_aes[OF assms(1)] newChecksum_hmac[OF assms(2)]
        aes_BlockSize_def sha256_Size_def Let_def p n)
qed

lemma decryptBlock_short:
  assumes "aes_variant (Encryption (Format v))"
    and "Checksum (Format v) = ''hmac-sha-256''"
    and "length c < 32"
  shows "decryptBlock cr v c = Inl (Panic ''slice bounds out of range'')"
  using assms(3)
  by (simp add: decryptBlock_def newCipher_aes[OF assms(1)] newChecksum_hmac[OF assms(2)]
        sha256_Size_def Let_def)

lemma PutBlock_nofault:
  "fault st = (\<lambda>op. None) \<Longrightarrow>
   PutBlock st k c = (None, logged (OpPutBlock k c) (st\<lparr>blocks := AList.update k c (blocks st)\<rparr>))"
  by (simp add: PutBlock_def)

lemma readEncryptedBlock_stored:
  "fault st (OpGetBlock (itemPrefix v @ itemID)) = None \<Longrightarrow>
   map_of (blocks st) (itemPrefix v @ itemID) = Some c \<Longrightarrow>
   fst (readEncryptedBlock cr v st itemID) = decryptBlock cr v c"
  by (simp add: readEncryptedBlock_def GetBlock_def)

lemma decryptBlock_none:
  "Encryption (Format v) = ''none'' \<Longrightarrow> decryptBlock cr v c = Inr c"
  by (simp add: decryptBlock_def newCipher_none)

lemma sealContent_none:
  "Encryption (Format v) = ''none'' \<Longrightarrow> sealContent cr rnd v c = Inr c"
  by (simp add: sealContent_def newCipher_none)

lemma seal_then_decrypt:
  assumes enc: "Encryption (Format v) \<in> set [''none'', ''aes-128'', ''aes-192'', ''aes-256'']"
    and aes: "Encryption (Format v) \<noteq> ''none'' \<Longrightarrow>
              Checksum (Format v) = ''hmac-sha-256'' \<and> hash_contract cr \<and> 16 \<le> length rnd"
  shows "\<exists>blk. sealContent cr rnd v P = Inr blk \<and> decryptBlock cr v blk = Inr P"
proof (cases "Encryption (Format v) = ''none''")
  case True
  then show ?thesis by (simp add: sealContent_none decryptBlock_none)
next
  case False
  with enc have av: "aes_variant (Encryption (Format v))"
    by (auto simp: aes_variant_def)
  from aes[OF False] have ck: "Checksum (Format v) = ''hmac-sha-256''"
    and hc: "hash_contract cr" and rn: "16 \<le> length rnd" by simp_all
  let ?iv = "take 16 rnd"
  let ?k = "deriveKey cr v purposeAESKey (aes_key_size (Encryption (Format v)))"
  let ?mk = "deriveKey cr v purposeChecksumSecret 32"
  let ?body = "XORKeyStream (aes_ctr cr ?k ?iv) P"
  let ?tag = "hmac_sha256 cr ?mk (?iv @ ?body)"
  have s: "sealContent cr rnd v P = Inr (?iv @ ?body @ ?tag)"
    by (rule sealContent_aes[OF av ck hc rn])
  have liv: "length ?iv = 16" using rn by simp
  have lt: "length ?tag = 32" using hc by (simp add: hash_contract_def sha256_Size_def)
  have "decryptBlock cr v (?iv @ ?body @ ?tag) = Inr (XORKeyStream (aes_ctr cr ?k ?iv) ?body)"
    using decryptBlock_sealed[OF av ck liv lt refl refl, of cr ?body] by simp
  then have "decryptBlock cr v (?iv @ ?body @ ?tag) = Inr P"
    by (simp only: XORKeyStream_involution)
  with s show ?thesis by simp
qed

text \<open>
  Claim C1. For each of the encryptions none, aes-128, aes-192 and aes-256, every plaintext
  \<open>P\<close>, master key and unique id: \<open>writeEncryptedBlock\<close> succeeds and stores a block that
  \<open>decryptBlock\<close> (and \<open>readEncryptedBlock\<close>) turns back into \<open>P\<close>; with encryption
  "none" the stored block is \<open>P\<close> itself and \<open>decryptBlock\<close> returns any input unchanged.
  For the AES variants the write needs the checksum "hmac-sha-256", 16 random bytes and an HMAC
  whose sum has \<open>hash.Size()\<close> bytes; the storage is assumed not to fail.
\<close>

theorem vault_write_then_decrypt:
  assumes enc: "Encryption (Format v) \<in> set [''none'', ''aes-128'', ''aes-192'', ''aes-256'']"
    and aes: "Encryption (Format v) \<noteq> ''none'' \<Longrightarrow>
              Checksum (Format v) = ''hmac-sha-256'' \<and> hash_contract cr \<and> 16 \<le> length rnd"
    and nofault: "fault st = (\<lambda>op. None)"
  shows "\<exists>blk st'. sealContent cr rnd v P = Inr blk
           \<and> writeEncryptedBlock cr rnd v st itemID P = (None, st')
           \<and> map_of (blocks st') (itemPrefix v @ itemID) = Some blk
           \<and> decryptBlock cr v blk = Inr P
           \<and> fst (readEncryptedBlock cr v st' itemID) = Inr P
           \<and> (Encryption (Format v) = ''none'' \<longrightarrow> blk = P \<and> (\<forall>c. decryptBlock cr v c = Inr c))"
proof -
  from seal_then_decrypt[OF enc aes] obtain blk where
    s: "sealContent cr rnd v P = Inr blk" and d: "decryptBlock cr v blk = Inr P"
    by blast
  define st' where
    "st' = logged (OpPutBlock (itemPrefix v @ itemID) blk)
             (st\<lparr>blocks := AList.update (itemPrefix v @ itemID) blk (blocks st)\<rparr>)"
  have w: "writeEncryptedBlock cr rnd v st itemID P = (None, st')"
    by (simp add: writeEncryptedBlock_def s PutBlock_nofault[OF nofault] st'_def)
  have m: "map_of (blocks st') (itemPrefix v @ itemID) = Some blk"
    by (simp add: st'_def logged_def update_conv')
  have f: "fault st' (OpGetBlock (itemPrefix v @ itemID)) = None"
    by (simp add: st'_def logged_def nofault)
  have r: "fst (readEncryptedBlock cr v st' itemID) = Inr P"
    using readEncryptedBlock_stored[OF f m] d by simp
  have n: "Encryption (Format v) = ''none'' \<longrightarrow> blk = P \<and> (\<forall>c. decryptBlock cr v c = Inr c)"
    using s by (auto simp: sealContent_none decryptBlock_none)
  from s w m d r n show ?thesis by blast
qed

text \<open>
  The round trip of C1 run on "hello" under aes-256.
\<close>

theorem vault_write_then_decrypt_witness:
  "fst (writeEncryptedBlock toy_crypto toy_rnd (toy_vault ''aes-256'' ''VLT'') empty_storage ''alpha'' hello) = None
   \<and> fst (readEncryptedBlock toy_crypto (toy_vault ''aes-256'' ''VLT'')
            (snd (writeEncryptedBlock toy_crypto toy_rnd (toy_vault ''aes-256'' ''VLT'') empty_storage ''alpha'' hello))
            ''alpha'') = Inr hello"
proof -
  have "\<exists>blk st'. sealContent toy_crypto toy_rnd (toy_vault ''aes-256'' ''VLT'') hello = Inr blk
           \<and> writeEncryptedBlock toy_crypto toy_rnd (toy_vault ''aes-256'' ''VLT'') empty_storage ''alpha'' hello = (None, st')
           \<and> map_of (blocks st') (itemPrefix (toy_vault ''aes-256'' ''VLT'') @ ''alpha'') = Some blk
           \<and> decryptBlock toy_crypto (toy_vault ''aes-256'' ''VLT'') blk = Inr hello
           \<and> fst (readEncryptedBlock toy_crypto (toy_vault ''aes-256'' ''VLT'') st' ''alpha'') = Inr hello
           \<and> (Encryption (Format (toy_vault ''aes-256'' ''VLT'')) = ''none'' \<longrightarrow>
                blk = hello \<and> (\<forall>c. decryptBlock toy_crypto (toy_vault ''aes-256'' ''VLT'') c = Inr c))"
    by (rule vault_write_then_decrypt)
       (simp_all add: toy_vault_def hash_contract_toy toy_rnd_def empty_storage_def)
  then obtain st' where
    "writeEncryptedBlock toy_crypto toy_rnd (toy_vault ''aes-256'' ''VLT'') empty_storage ''alpha'' hello = (None, st')"
    "fst (readEncryptedBlock toy_crypto (toy_vault ''aes-256'' ''VLT'') st' ''alpha'') = Inr hello"
    by blast
  then show ?thesis by simp
qed

text \<open>
  Claim C3. For every plaintext \<open>P\<close> and AES variant with the checksum hmac-sha-256, the block
  handed to \<open>PutBlock\<close> is \<open>IV || AES-CTR(key, IV, P) || HMAC-SHA-256(mac_key, IV || ciphertext)\<close>:
  16 bytes of IV, \<open>|P|\<close> bytes of ciphertext, 32 bytes of tag, and the MAC is taken over the IV
  and the ciphertext.
\<close>

theorem vault_block_layout:
  assumes av: "aes_variant (Encryption (Format v))"
    and ck: "Checksum (Format v) = ''hmac-sha-256''"
    and hc: "hash_contract cr"
    and rn: "16 \<le> length rnd"
  shows "\<exists>iv body tag.
           iv = take 16 rnd \<and> length iv = 16
         \<and> body = XORKeyStream
                    (aes_ctr cr (deriveKey cr v purposeAESKey (aes_key_size (Encryption (Format v)))) iv) P
         \<and> length body = length P
         \<and> tag = hmac_sha256 cr (deriveKey cr v purposeChecksumSecret 32) (iv @ body)
         \<and> length tag = 32
         \<and> sealContent cr rnd v P = Inr (iv @ body @ tag)
         \<and> length (iv @ body @ tag) = 16 + length P + 32
         \<and> writeEncryptedBlock cr rnd v st itemID P
             = PutBlock st (itemPrefix v @ itemID) (iv @ body @ tag)"
proof -
  let ?iv = "take 16 rnd"
  let ?k = "deriveKey cr v purposeAESKey (aes_key_size (Encryption (Format v)))"
  let ?mk = "deriveKey cr v purposeChecksumSecret 32"
  let ?body = "XORKeyStream (aes_ctr cr ?k ?iv) P"
  let ?tag = "hmac_sha256 cr ?mk (?iv @ ?body)"
  have s: "sealContent cr rnd v P = Inr (?iv @ ?body @ ?tag)"
    by (rule sealContent_aes[OF av ck hc rn])
  have liv: "length ?iv = 16" using rn by simp
  have lb: "length ?body = length P" by (simp add: length_XORKeyStream)
  have lt: "length ?tag = 32" using hc by (simp add: hash_contract_def sha256_Size_def)
  have w: "writeEncryptedBlock cr rnd v st itemID P
             = PutBlock st (itemPrefix v @ itemID) (?iv @ ?body @ ?tag)"
    by (simp add: writeEncryptedBlock_def s)
  have len: "length (?iv @ ?body @ ?tag) = 16 + length P + 32"
    using liv lb lt by simp
  from s liv lb lt w len show ?thesis by blast
qed

text \<open>
  The layout of C3 on the 5-byte plaintext "hello": 53 bytes.
\<close>

theorem vault_block_layout_witness:
  "\<exists>blk. sealContent toy_crypto toy_rnd (toy_vault ''aes-256'' []) hello = Inr blk
      \<and> length blk = 53 \<and> take 16 blk = toy_rnd"
proof -
  have "\<exists>iv body tag.
           iv = take 16 toy_rnd \<and> length iv = 16
         \<and> body = XORKeyStream
                    (aes_ctr toy_crypto (deriveKey toy_crypto (toy_vault ''aes-256'' []) purposeAESKey
                       (aes_key_size (Encryption (Format (toy_vault ''aes-256'' []))))) iv) hello
         \<and> length body = length hello
         \<and> tag = hmac_sha256 toy_crypto (deriveKey toy_crypto (toy_vault ''aes-256'' []) purposeChecksumSecret 32) (iv @ body)
         \<and> length tag = 32
         \<and> sealContent toy_crypto toy_rnd (toy_vault ''aes-256'' []) hello = Inr (iv @ body @ tag)
         \<and> length (iv @ body @ tag) = 16 + length hello + 32
         \<and> writeEncryptedBlock toy_crypto toy_rnd (toy_vault ''aes-256'' []) empty_storage ''alpha'' hello
             = PutBlock empty_storage (itemPrefix (toy_vault ''aes-256'' []) @ ''alpha'') (iv @ body @ tag)"
    by (rule vault_block_layout)
       (simp_all add: toy_vault_def hash_contract_toy toy_rnd_def aes_variant_def)
  then obtain iv body tag where
    a: "iv = take 16 toy_rnd" "length iv = 16" "length body = length hello" "length tag = 32"
       "sealContent toy_crypto toy_rnd (toy_vault ''aes-256'' []) hello = Inr (iv @ body @ tag)"
    by blast
  have "take 16 toy_rnd = toy_rnd" by (simp add: toy_rnd_def)
  with a show ?thesis by (simp add: hello_def)
qed

text \<open>
  Claim C2. \<open>decryptBlock\<close> returns the checksum error exactly when the HMAC recomputed over
  the leading bytes differs from the trailing 32 bytes, and returns a plaintext only when they are
  equal. Hence flipping one bit of a block written by the vault is rejected: always when the bit
  lies in the tag, and when it lies in the IV or the ciphertext provided the HMAC of the modified
  leading bytes differs from that of the original ones (the HMAC is a parameter of the model; that
  it separates the two messages is the property of HMAC-SHA-256 the claim relies on).
\<close>

theorem vault_tamper_detected:
  assumes av: "aes_variant (Encryption (Format v))"
    and ck: "Checksum (Format v) = ''hmac-sha-256''"
    and hc: "hash_contract cr"
    and sealed: "sealContent cr rnd v P = Inr blk"
    and i: "i < 8 * length blk"
    and distinct_mac:
      "i < 8 * (16 + length P) \<Longrightarrow>
         hmac_sha256 cr (deriveKey cr v purposeChecksumSecret 32) (take (16 + length P) (flip_bit_at i blk))
           \<noteq> hmac_sha256 cr (deriveKey cr v purposeChecksumSecret 32) (take (16 + length P) blk)"
  shows "decryptBlock cr v (flip_bit_at i blk) = Inl ChecksumMismatch
       \<and> decryptBlock cr v blk = Inr P
       \<and> (\<forall>c. 32 \<le> length c \<longrightarrow>
             (decryptBlock cr v c = Inl ChecksumMismatch)
               = (hmac_sha256 cr (deriveKey cr v purposeChecksumSecret 32) (take (length c - 32) c)
                    \<noteq> drop (length c - 32) c))
       \<and> (\<forall>c x. decryptBlock cr v c = Inr x \<longrightarrow>
             hmac_sha256 cr (deriveKey cr v purposeChecksumSecret 32) (take (length c - 32) c)
               = drop (length c - 32) c)"
proof -
  let ?mk = "deriveKey cr v purposeChecksumSecret 32"
  let ?k = "deriveKey cr v purposeAESKey (aes_key_size (Encryption (Format v)))"
  have rn: "16 \<le> length rnd"
  proof (rule ccontr)
    assume "\<not> 16 \<le> length rnd"
    then have "sealContent cr rnd v P = Inl RngFailure"
      by (simp add: sealContent_def newCipher_aes[OF av] newChecksum_hmac[OF ck]
          ReadFull_def aes_BlockSize_def Let_def)
    with sealed show False by simp
  qed
  let ?iv = "take 16 rnd"
  let ?body = "XORKeyStream (aes_ctr cr ?k ?iv) P"
  let ?tag = "hmac_sha256 cr ?mk (?iv @ ?body)"
  have blk: "blk = ?iv @ ?body @ ?tag"
    using sealContent_aes[OF av ck hc rn, of P] sealed by simp
  have liv: "length ?iv = 16" using rn by simp
  have lb: "length ?body = length P" by (simp add: length_XORKeyStream)
  have lt: "length ?tag = 32" using hc by (simp add: hash_contract_def sha256_Size_def)
  have len: "length blk = 16 + length P + 32" using blk liv lb lt by simp
  have tk: "take (16 + length P) blk = ?iv @ ?body" using blk liv lb by simp
  have dr: "drop (16 + length P) blk = ?tag" using blk liv lb by simp
  have general: "\<And>c. 32 \<le> length c \<Longrightarrow>
      (decryptBlock cr v c = Inl ChecksumMismatch)
        = (hmac_sha256 cr ?mk (take (length c - 32) c) \<noteq> drop (length c - 32) c)"
    by (simp add: decryptBlock_long[OF av ck])
  have success: "\<And>c x. decryptBlock cr v c = Inr x \<Longrightarrow>
      hmac_sha256 cr ?mk (take (length c - 32) c) = drop (length c - 32) c"
  proof -
    fix c x assume d: "decryptBlock cr v c = Inr x"
    show "hmac_sha256 cr ?mk (take (length c - 32) c) = drop (length c - 32) c"
    proof (cases "length c < 32")
      case True
      with d show ?thesis by (simp add: decryptBlock_short[OF av ck])
    next
      case False
      then have "32 \<le> length c" by simp
      with d show ?thesis
        by (simp add: decryptBlock_long[OF av ck] split: if_splits)
    qed
  qed
  let ?f = "flip_bit_at i blk"
  have lf: "length ?f = 16 + length P + 32" by (simp add: flip_bit_at_length len)
  have p: "length ?f - 32 = 16 + length P" using lf by simp
  have mismatch: "hmac_sha256 cr ?mk (take (16 + length P) ?f) \<noteq> drop (16 + length P) ?f"
  proof (cases "i < 8 * (16 + length P)")
    case True
    have "drop (16 + length P) ?f = ?tag"
      using flip_bit_at_drop[OF True] dr by simp
    moreover have "hmac_sha256 cr ?mk (take (16 + length P) ?f) \<noteq> ?tag"
      using distinct_mac[OF True] tk by simp
    ultimately show ?thesis by simp
  next
    case False
    then have ge: "8 * (16 + length P) \<le> i" by simp
    have same: "take (16 + length P) ?f = ?iv @ ?body"
      using flip_bit_at_take[OF ge] tk by simp
    have "?f \<noteq> blk" using flip_bit_at_neq[OF i] .
    then have "drop (16 + length P) ?f \<noteq> drop (16 + length P) blk"
      using flip_bit_at_take[OF ge, of blk]
      by (metis append_take_drop_id)
    then show ?thesis using same dr by simp
  qed
  have flipped: "decryptBlock cr v ?f = Inl ChecksumMismatch"
    using general[of ?f] lf mismatch p by simp
  have orig: "decryptBlock cr v blk = Inr P"
    using decryptBlock_sealed[OF av ck liv lt refl refl, of cr ?body] blk
    by (simp add: XORKeyStream_involution)
  from flipped orig general success show ?thesis by blast
qed

text \<open>
  C2 run on the sealed "hello": a flipped bit in the IV (bit 0), in the ciphertext (bit 130) and
  in the tag (bit 423) are all rejected.
\<close>

theorem vault_tamper_detected_witness:
  "sealContent toy_crypto toy_rnd (toy_vault ''aes-256'' []) hello = Inr sealed_hello
   \<and> decryptBlock toy_crypto (toy_vault ''aes-256'' []) (flip_bit_at 0 sealed_hello)
       = Inl ChecksumMismatch
   \<and> decryptBlock toy_crypto (toy_vault ''aes-256'' []) (flip_bit_at 130 sealed_hello)
       = Inl ChecksumMismatch
   \<and> decryptBlock toy_crypto (toy_vault ''aes-256'' []) (flip_bit_at 423 sealed_hello)
       = Inl ChecksumMismatch"
proof -
  have av: "aes_variant (Encryption (Format (toy_vault ''aes-256'' [])))"
    by (simp add: toy_vault_def aes_variant_def)
  have ck: "Checksum (Format (toy_vault ''aes-256'' [])) = ''hmac-sha-256''"
    by (simp add: toy_vault_def)
  have s: "sealContent toy_crypto toy_rnd (toy_vault ''aes-256'' []) hello = Inr sealed_hello"
    by code_simp
  have l: "length sealed_hello = 53" by (simp add: sealed_hello_def)
  have m0: "hmac_sha256 toy_crypto
              (deriveKey toy_crypto (toy_vault ''aes-256'' []) purposeChecksumSecret 32)
              (take (16 + length hello) (flip_bit_at 0 sealed_hello))
            \<noteq> hmac_sha256 toy_crypto
              (deriveKey toy_crypto (toy_vault ''aes-256'' []) purposeChecksumSecret 32)
              (take (16 + length hello) sealed_hello)"
    by code_simp
  have m130: "hmac_sha256 toy_crypto
              (deriveKey toy_crypto (toy_vault ''aes-256'' []) purposeChecksumSecret 32)
              (take (16 + length hello) (flip_bit_at 130 sealed_hello))
            \<noteq> hmac_sha256 toy_crypto
              (deriveKey toy_crypto (toy_vault ''aes-256'' []) purposeChecksumSecret 32)
              (take (16 + length hello) sealed_hello)"
    by code_simp
  have h: "length hello = 5" by (simp add: hello_def)
  have d0: "decryptBlock toy_crypto (toy_vault ''aes-256'' []) (flip_bit_at 0 sealed_hello)
              = Inl ChecksumMismatch"
    using vault_tamper_detected[OF av ck hash_contract_toy s, of 0] m0 l by simp
  have d130: "decryptBlock toy_crypto (toy_vault ''aes-256'' []) (flip_bit_at 130 sealed_hello)
              = Inl ChecksumMismatch"
    using vault_tamper_detected[OF av ck hash_contract_toy s, of 130] m130 l by simp
  have d423: "decryptBlock toy_crypto (toy_vault ''aes-256'' []) (flip_bit_at 423 sealed_hello)
              = Inl ChecksumMismatch"
    using vault_tamper_detected[OF av ck hash_contract_toy s, of 423] l h by simp
  from s d0 d130 d423 show ?thesis by simp
qed

text \<open>
  Claim C9, as amended. For an AES variant, a stored block shorter than 32 bytes makes
  \<open>decryptBlock\<close> (and \<open>Get\<close>) panic on the slice \<open>content[0:p]\<close> with negative \<open>p\<close>. A block
  of 32 to 47 bytes is rejected with the checksum error unless its last 32 bytes are the HMAC of
  the bytes before them; only then does \<open>decryptBlock\<close> panic, allocating a plaintext of
  negative length.
\<close>

theorem decryptBlock_below_minimum:
  assumes av: "aes_variant (Encryption (Format v))"
    and ck: "Checksum (Format v) = ''hmac-sha-256''"
    and short: "length c < 48"
    and stored: "map_of (blocks st) (itemPrefix v @ itemID) = Some c"
    and nofault: "fault st (OpGetBlock (itemPrefix v @ itemID)) = None"
    and name: "\<not> isReservedName itemID"
  shows "decryptBlock cr v c =
           (if length c < 32 then Inl (Panic ''slice bounds out of range'')
            else if hmac_sha256 cr (deriveKey cr v purposeChecksumSecret 32) (take (length c - 32) c)
                      \<noteq> drop (length c - 32) c
                 then Inl ChecksumMismatch
                 else Inl (Panic ''makeslice: len out of range''))
       \<and> fst (Get cr v st itemID) = decryptBlock cr v c"
proof -
  have g: "fst (Get cr v st itemID) = decryptBlock cr v c"
    using name readEncryptedBlock_stored[OF nofault stored, of cr]
    by (simp add: Get_def checkReservedName_def)
  show ?thesis
  proof (cases "length c < 32")
    case True
    then show ?thesis using g by (simp add: decryptBlock_short[OF av ck])
  next
    case False
    then have "32 \<le> length c" by simp
    then show ?thesis using g short False by (simp add: decryptBlock_long[OF av ck])
  qed
qed

text \<open>
  C9 run on a stored block of 31 bytes.
\<close>

theorem decryptBlock_below_minimum_witness:
  "fst (Get toy_crypto (toy_vault ''aes-128'' ''VLT'') (toy_storage [(''VLTalpha'', replicate 31 0)]) ''alpha'')
     = Inl (Panic ''slice bounds out of range'')
   \<and> decryptBlock toy_crypto (toy_vault ''aes-128'' ''VLT'') (replicate 31 0)
     = Inl (Panic ''slice bounds out of range'')"
  using decryptBlock_below_minimum[of "toy_vault ''aes-128'' ''VLT''" "replicate 31 0"
      "toy_storage [(''VLTalpha'', replicate 31 0)]" "''alpha''" toy_crypto]
  by (simp add: toy_vault_def aes_variant_def toy_storage_def isReservedName_def
      formatBlockID_def repositoryConfigBlockID_def)

text \<open>
  C9 as stated fails: a block of 32 zero bytes is shorter than 48 bytes and is rejected with the
  checksum error, not with a panic.
\<close>

theorem decryptBlock_below_minimum_counterexample:
  "length (replicate 32 (0::byte)) < 48
   \<and> decryptBlock toy_crypto (toy_vault ''aes-256'' []) (replicate 32 0) = Inl ChecksumMismatch
   \<and> fst (Get toy_crypto (toy_vault ''aes-256'' []) (toy_storage [(''alpha'', replicate 32 0)]) ''alpha'')
       = Inl ChecksumMismatch"
  by code_simp

lemma fetch_logged: "fst (fetch (logged op st) name) = fst (fetch st name)"
  by (simp add: fetch_def GetBlock_def logged_def split: option.splits)

lemma snd_fetch: "snd (fetch st name) = logged (OpGetBlock name) st"
  by (simp add: fetch_def GetBlock_def split: option.splits)

lemma fetch_split: "fetch st name = (fst (fetch st name), logged (OpGetBlock name) st)"
  by (simp add: snd_fetch[symmetric])

lemma decryptBlock_not_format_missing: "decryptBlock cr v c \<noteq> Inl VaultFormatMissing"
  by (auto simp: decryptBlock_def newCipher_def newChecksum_def aes_NewCipher_def Let_def
      split: sum.splits option.splits if_splits)

lemma Open_unfold:
  "fst (Open cr uf ur gm st) =
     (let b0 = fst (fetch st formatBlockID);
          b1 = fst (fetch st repositoryConfigBlockID);
          b2 = fst (fetch st (colocatedVaultItemPrefix @ formatBlockID));
          b3 = fst (fetch st (colocatedVaultItemPrefix @ repositoryConfigBlockID))
      in if b0 = None \<and> b2 = None then Inl VaultFormatMissing
         else
           (let prefix = (if b0 = None then colocatedVaultItemPrefix else []);
                formatBlock = (if b0 = None then b2 else b0);
                configBlock = (if b0 = None then b3 else b1)
            in case uf (slice_of formatBlock) of
                 None \<Rightarrow> Inl JSONError
               | Some f \<Rightarrow>
                   (let v = \<lparr>Format = f, RepoConfig = None,
                             masterKey = gm (UniqueID f), itemPrefix = prefix\<rparr>
                    in case decryptBlock cr v (slice_of configBlock) of
                         Inl e \<Rightarrow> Inl e
                       | Inr cfgData \<Rightarrow>
                           (case ur cfgData of
                              None \<Rightarrow> Inl JSONError
                            | Some rc \<Rightarrow> Inr (v\<lparr>RepoConfig := Some rc\<rparr>)))))"
  by (simp add: Open_def split_beta snd_fetch fetch_logged Let_def
      option.case_distrib[of fst] sum.case_distrib[of fst] if_distrib[of fst]
      cong: option.case_cong sum.case_cong if_cong)

text \<open>
  Claim C7. \<open>Open\<close> fails with "vault format block not found" exactly when neither
  \<open>format\<close> nor \<open>VLTformat\<close> could be read. Otherwise, a vault it returns has the empty item
  prefix and the format parsed from \<open>format\<close> when that block was read, and the prefix
  \<open>VLT\<close> and the format parsed from \<open>VLTformat\<close> when only that one was. On a storage
  without failures a block cannot be read exactly when it is absent.
\<close>

theorem Open_selects_variant:
  "(fst (Open cr uf ur gm st) = Inl VaultFormatMissing)
     = (fst (fetch st ''format'') = None \<and> fst (fetch st ''VLTformat'') = None)
   \<and> (\<forall>v. fst (Open cr uf ur gm st) = Inr v \<longrightarrow>
         (if fst (fetch st ''format'') \<noteq> None
          then itemPrefix v = [] \<and> uf (slice_of (fst (fetch st ''format''))) = Some (Format v)
          else itemPrefix v = ''VLT'' \<and> uf (slice_of (fst (fetch st ''VLTformat''))) = Some (Format v)))
   \<and> (fault st = (\<lambda>op. None) \<longrightarrow>
         (fst (fetch st ''format'') = None) = (map_of (blocks st) ''format'' = None)
       \<and> (fst (fetch st ''VLTformat'') = None) = (map_of (blocks st) ''VLTformat'' = None))"
proof -
  have names: "formatBlockID = ''format''" "colocatedVaultItemPrefix @ formatBlockID = ''VLTformat''"
    "colocatedVaultItemPrefix = ''VLT''"
    by (simp_all add: formatBlockID_def colocatedVaultItemPrefix_def)
  have a: "(fst (Open cr uf ur gm st) = Inl VaultFormatMissing)
     = (fst (fetch st ''format'') = None \<and> fst (fetch st ''VLTformat'') = None)"
    unfolding Open_unfold names Let_def
    using decryptBlock_not_format_missing
    by (auto split: option.splits sum.splits)
  have b: "\<forall>v. fst (Open cr uf ur gm st) = Inr v \<longrightarrow>
         (if fst (fetch st ''format'') \<noteq> None
          then itemPrefix v = [] \<and> uf (slice_of (fst (fetch st ''format''))) = Some (Format v)
          else itemPrefix v = ''VLT'' \<and> uf (slice_of (fst (fetch st ''VLTformat''))) = Some (Format v))"
    unfolding Open_unfold names Let_def
    by (auto split: option.splits sum.splits if_splits)
  have c: "fault st = (\<lambda>op. None) \<longrightarrow>
         (fst (fetch st ''format'') = None) = (map_of (blocks st) ''format'' = None)
       \<and> (fst (fetch st ''VLTformat'') = None) = (map_of (blocks st) ''VLTformat'' = None)"
    by (auto simp: fetch_def GetBlock_def split: option.splits)
  from a b c show ?thesis by blast
qed

text \<open>
  C7 run on a store holding both variants, only the colocated one, and neither.
\<close>

theorem Open_selects_variant_witness:
  "fst (Open toy_crypto toy_unmarshalFormat toy_unmarshalRepoConfig (\<lambda>u. u)
          (toy_storage [(''format'', [1]), (''repo'', [2]), (''VLTformat'', [3]), (''VLTrepo'', [4])]))
     \<noteq> Inl VaultFormatMissing
   \<and> fst (Open toy_crypto toy_unmarshalFormat toy_unmarshalRepoConfig (\<lambda>u. u)
          (toy_storage [(''format'', [1]), (''repo'', [2]), (''VLTformat'', [3]), (''VLTrepo'', [4])]))
     = Inr \<lparr>Format = \<lparr>Version = ''1'', UniqueID = [1], Encryption = ''none'',
                         Checksum = ''hmac-sha-256''\<rparr>,
            RepoConfig = Some [2], masterKey = [1], itemPrefix = []\<rparr>
   \<and> fst (Open toy_crypto toy_unmarshalFormat toy_unmarshalRepoConfig (\<lambda>u. u)
          (toy_storage [(''repo'', [2]), (''VLTformat'', [3]), (''VLTrepo'', [4])]))
     = Inr \<lparr>Format = \<lparr>Version = ''1'', UniqueID = [3], Encryption = ''none'',
                         Checksum = ''hmac-sha-256''\<rparr>,
            RepoConfig = Some [4], masterKey = [3], itemPrefix = ''VLT''\<rparr>
   \<and> fst (Open toy_crypto toy_unmarshalFormat toy_unmarshalRepoConfig (\<lambda>u. u)
          (toy_storage [(''repo'', [2]), (''VLTrepo'', [4])]))
     = Inl VaultFormatMissing"
proof -
  let ?both = "toy_storage [(''format'', [1]), (''repo'', [2]), (''VLTformat'', [3]), (''VLTrepo'', [4])]"
  let ?none = "toy_storage [(''repo'', [2]), (''VLTrepo'', [4])]"
  have f1: "fst (fetch ?both ''format'') = Some [1]"
    by (simp add: fetch_def GetBlock_def toy_storage_def)
  have f2: "fst (fetch ?none ''format'') = None" "fst (fetch ?none ''VLTformat'') = None"
    by (simp_all add: fetch_def GetBlock_def toy_storage_def)
  have a: "fst (Open toy_crypto toy_unmarshalFormat toy_unmarshalRepoConfig (\<lambda>u. u) ?both)
             \<noteq> Inl VaultFormatMissing"
    using Open_selects_variant[of toy_crypto toy_unmarshalFormat toy_unmarshalRepoConfig "\<lambda>u. u" ?both]
      f1 by simp
  have d: "fst (Open toy_crypto toy_unmarshalFormat toy_unmarshalRepoConfig (\<lambda>u. u) ?none)
             = Inl VaultFormatMissing"
    using Open_selects_variant[of toy_crypto toy_unmarshalFormat toy_unmarshalRepoConfig "\<lambda>u. u" ?none]
      f2 by simp
  have b: "fst (Open toy_crypto toy_unmarshalFormat toy_unmarshalRepoConfig (\<lambda>u. u) ?both)
     = Inr \<lparr>Format = \<lparr>Version = ''1'', UniqueID = [1], Encryption = ''none'',
                         Checksum = ''hmac-sha-256''\<rparr>,
            RepoConfig = Some [2], masterKey = [1], itemPrefix = []\<rparr>"
    by code_simp
  have c: "fst (Open toy_crypto toy_unmarshalFormat toy_unmarshalRepoConfig (\<lambda>u. u)
          (toy_storage [(''repo'', [2]), (''VLTformat'', [3]), (''VLTrepo'', [4])]))
     = Inr \<lparr>Format = \<lparr>Version = ''1'', UniqueID = [3], Encryption = ''none'',
                         Checksum = ''hmac-sha-256''\<rparr>,
            RepoConfig = Some [4], masterKey = [3], itemPrefix = ''VLT''\<rparr>"
    by code_simp
  from a b c d show ?thesis by blast
qed

lemma List_loop_not_reserved:
  "set (fst (List_loop v bs acc)) \<subseteq> set acc \<union> {x. \<not> isReservedName x}"
  by (induction v bs acc rule: List_loop.induct) (auto simp: Let_def)

text \<open>
  Claim C8. For the item ids \<open>format\<close> and \<open>repo\<close>, \<open>Put\<close>, \<open>Get\<close> and \<open>Remove\<close> return
  the reserved-name error and the storage they return is the one they were given (no call was
  made, the log included); \<open>List\<close> never returns such an id, whatever the storage streams.
\<close>

theorem reserved_names_rejected:
  assumes "itemID = ''format'' \<or> itemID = ''repo''"
  shows "Put cr rnd v st itemID content = (Some (ReservedName itemID), st)
       \<and> Get cr v st itemID = (Inl (ReservedName itemID), st)
       \<and> Remove v st itemID = (Some (ReservedName itemID), st)
       \<and> itemID \<notin> set (fst (fst (List v st prefix)))
       \<and> itemID \<notin> set (fst (List_loop v stream []))"
proof -
  have r: "isReservedName itemID"
    using assms by (auto simp: isReservedName_def formatBlockID_def repositoryConfigBlockID_def)
  have l: "itemID \<notin> set (fst (List_loop v bs []))" for bs
    using List_loop_not_reserved[of v bs "[]"] r by auto
  have "itemID \<notin> set (fst (fst (List v st prefix)))"
    using l by (simp add: List_def split_beta)
  with r l show ?thesis
    by (simp add: Put_def Get_def Remove_def checkReservedName_def)
qed

text \<open>
  C8 run on a colocated vault holding \<open>VLTformat\<close>, \<open>VLTrepo\<close> and \<open>VLTalpha\<close>.
\<close>

theorem reserved_names_rejected_witness:
  "Put toy_crypto toy_rnd (toy_vault ''aes-256'' ''VLT'')
      (toy_storage [(''VLTformat'', [1]), (''VLTrepo'', [2]), (''VLTalpha'', [3])]) ''repo'' hello
     = (Some (ReservedName ''repo''),
        toy_storage [(''VLTformat'', [1]), (''VLTrepo'', [2]), (''VLTalpha'', [3])])
   \<and> fst (fst (List (toy_vault ''aes-256'' ''VLT'')
        (toy_storage [(''VLTformat'', [1]), (''VLTrepo'', [2]), (''VLTalpha'', [3])]) [])) = [''alpha'']"
proof -
  have a: "Put toy_crypto toy_rnd (toy_vault ''aes-256'' ''VLT'')
      (toy_storage [(''VLTformat'', [1]), (''VLTrepo'', [2]), (''VLTalpha'', [3])]) ''repo'' hello
     = (Some (ReservedName ''repo''),
        toy_storage [(''VLTformat'', [1]), (''VLTrepo'', [2]), (''VLTalpha'', [3])])"
    using reserved_names_rejected[where itemID = "''repo''" and cr = toy_crypto and rnd = toy_rnd
        and v = "toy_vault ''aes-256'' ''VLT''" and content = hello
        and st = "toy_storage [(''VLTformat'', [1]), (''VLTrepo'', [2]), (''VLTalpha'', [3])]"]
    by simp
  have b: "fst (fst (List (toy_vault ''aes-256'' ''VLT'')
        (toy_storage [(''VLTformat'', [1]), (''VLTrepo'', [2]), (''VLTalpha'', [3])]) [])) = [''alpha'']"
    by code_simp
  from a b show ?thesis by simp
qed

section \<open>Properties of the ignore engine\<close>

lemma loadDotIgnoreFiles_none_found:
  "\<not> list_ex (\<lambda>dotfile. FindByName entries dotfile \<noteq> None) dfs \<Longrightarrow>
   loadDotIgnoreFiles parse c dirPath entries dfs = Inr c"
  by (induction dfs) auto

lemma newContext_no_policy_no_dotfile:
  "\<not> list_ex (\<lambda>dotfile. FindByName entries dotfile \<noteq> None) dfs \<Longrightarrow>
   newContext parse relativePath parentContext entries None dfs =
     Inr (IgnoreContext (Some parentContext) (policyGetter parentContext)
            (onIgnore parentContext) dfs [] (maxFileSize parentContext))"
  by (simp add: newContext_def loadDotIgnoreFiles_none_found)

lemma shouldIncludeByName_empty_child:
  "shouldIncludeByName (IgnoreContext (Some c) pg oi dif [] mfs) path e
     = shouldIncludeByName c path e"
  by simp

lemma filter_entries_cong:
  assumes "\<And>path e. shouldIncludeByName c path e = shouldIncludeByName c' path e"
    and "maxFileSize c = maxFileSize c'"
  shows "map unwrapped (fst (filter_entries rp c es)) = map unwrapped (fst (filter_entries rp c' es))
       \<and> snd (filter_entries rp c es) = snd (filter_entries rp c' es)"
proof (induction es)
  case Nil
  then show ?case by simp
next
  case (Cons e es)
  then show ?case
    using assms by (auto simp: split_beta split: entry.splits)
qed

lemma overrideFromPolicy_flag_ignored:
  "matchers c = [] \<Longrightarrow>
   overrideFromPolicy parse c (pol\<lparr>NoParentIgnoreRules := b\<rparr>) dirPath
     = overrideFromPolicy parse c pol dirPath"
  by (simp add: overrideFromPolicy_def cong: sum.case_cong)

lemma NoParentIgnoreRules_has_no_effect:
  "newContext parse relativePath parentContext entries (Some (pol\<lparr>NoParentIgnoreRules := b\<rparr>)) dfs
     = newContext parse relativePath parentContext entries (Some pol) dfs"
  by (simp add: newContext_def overrideFromPolicy_flag_ignored)

text \<open>
  Claim C4 fails on the code. The root policy ignores \<open>secret\<close>; the policy of \<open>./sub\<close> sets
  \<open>NoParentIgnoreRules\<close>. \<open>Readdir\<close> of \<open>./sub\<close> still drops \<open>./sub/secret\<close> and reports it to
  the callback: \<open>overrideFromPolicy\<close> clears the matchers of the new context, which has none yet,
  and \<open>shouldIncludeByName\<close> goes on to the parent context.
\<close>

theorem NoParentIgnoreRules_parent_rule_still_applies:
  "map unwrapped (projr (fst (Readdir toy_parse ''.'' (rootContext toy_policies [0::nat]) (Inr toy_root))))
     = toy_root
   \<and> map unwrapped (projr (fst (Readdir_listed toy_parse
            (hd (projr (fst (Readdir toy_parse ''.'' (rootContext toy_policies [0::nat]) (Inr toy_root))))))))
     = [EFile ''keep'' 1 (Inr [])]
   \<and> snd (Readdir_listed toy_parse
            (hd (projr (fst (Readdir toy_parse ''.'' (rootContext toy_policies [0::nat]) (Inr toy_root))))))
     = [(0, ''./sub/secret'', EFile ''secret'' 1 (Inr []))]"
  by code_simp

lemma overrideFromPolicy_reparent:
  "overrideFromPolicy parse (reparent p c) pol dir
     = map_sum id (reparent p) (overrideFromPolicy parse c pol dir)"
  by (simp add: overrideFromPolicy_def reparent_def Let_def split: sum.splits)

lemma loadDotIgnoreFiles_reparent:
  "loadDotIgnoreFiles parse (reparent p c) dir es dfs
     = map_sum id (reparent p) (loadDotIgnoreFiles parse c dir es dfs)"
proof (induction dfs arbitrary: c)
  case Nil
  then show ?case by simp
next
  case (Cons d dfs)
  have step: "\<And>ms. IgnoreContext (parent (reparent p c)) (policyGetter (reparent p c))
                  (onIgnore (reparent p c)) (dotIgnoreFiles (reparent p c))
                  (matchers (reparent p c) @ ms) (maxFileSize (reparent p c))
            = reparent p (IgnoreContext (parent c) (policyGetter c) (onIgnore c)
                  (dotIgnoreFiles c) (matchers c @ ms) (maxFileSize c))"
    by (simp add: reparent_def)
  show ?case
    by (simp add: step Cons.IH split: option.splits entry.splits sum.splits)
qed

lemma newContext_reparent:
  assumes "same_filtering c c'"
  shows "newContext parse rp c' es pol dfs
           = map_sum id (reparent (Some c')) (newContext parse rp c es pol dfs)"
proof -
  let ?n = "IgnoreContext (Some c) (policyGetter c) (onIgnore c) dfs [] (maxFileSize c)"
  have n': "IgnoreContext (Some c') (policyGetter c') (onIgnore c') dfs [] (maxFileSize c')
              = reparent (Some c') ?n"
    using assms by (simp add: reparent_def same_filtering_def)
  show ?thesis
    unfolding newContext_def Let_def n'
    by (cases pol)
       (auto simp: overrideFromPolicy_reparent loadDotIgnoreFiles_reparent split: sum.splits)
qed

lemma overrideFromPolicy_parent:
  "overrideFromPolicy parse a pl rp = Inr y \<Longrightarrow> parent y = parent a"
  by (auto simp: overrideFromPolicy_def Let_def split: sum.splits)

lemma loadDotIgnoreFiles_parent:
  "loadDotIgnoreFiles parse a rp es dfs = Inr y \<Longrightarrow> parent y = parent a"
  by (induction dfs arbitrary: a) (auto split: option.splits entry.splits sum.splits)

lemma newContext_parent:
  "newContext parse rp c es pol dfs = Inr x \<Longrightarrow> parent x = Some c"
  by (cases pol)
     (auto simp: newContext_def Let_def split: sum.splits
       dest!: loadDotIgnoreFiles_parent overrideFromPolicy_parent)

lemma same_filtering_reparent:
  assumes "same_filtering c c'" and "parent x = Some c"
  shows "same_filtering x (reparent (Some c') x)"
proof -
  obtain p pg oi dif ms mfs where x: "x = IgnoreContext p pg oi dif ms mfs" by (cases x)
  with assms(2) have p: "p = Some c" by simp
  show ?thesis
    using assms(1) by (simp add: x p reparent_def same_filtering_def)
qed

lemma buildContext_same_filtering:
  assumes "same_filtering c c'"
  shows "rel_sum (=) same_filtering (buildContext parse rp c es) (buildContext parse rp c' es)"
proof -
  have pg: "policyGetter c' = policyGetter c" and df: "dotIgnoreFiles c' = dotIgnoreFiles c"
    using assms by (simp_all add: same_filtering_def)
  show ?thesis
  proof (cases "policyGetter c rp")
    case (Inl err)
    then show ?thesis by (simp add: buildContext_def pg)
  next
    case (Inr pol)
    let ?dfs = "case pol of None \<Rightarrow> dotIgnoreFiles c | Some pl \<Rightarrow> DotIgnoreFiles pl"
    show ?thesis
    proof (cases "\<not> list_ex (\<lambda>dotfile. FindByName es dotfile \<noteq> None) ?dfs \<and> pol = None")
      case True
      then have pn: "pol = None" by simp
      with True have nf: "\<not> list_ex (\<lambda>dotfile. FindByName es dotfile \<noteq> None) (dotIgnoreFiles c)"
        by simp
      have "buildContext parse rp c es = Inr c" "buildContext parse rp c' es = Inr c'"
        using Inr pn nf by (simp_all add: buildContext_def pg df Let_def)
      then show ?thesis using assms by simp
    next
      case False
      have b: "buildContext parse rp c es = newContext parse rp c es pol ?dfs"
        using Inr False by (auto simp: buildContext_def Let_def)
      have b': "buildContext parse rp c' es = newContext parse rp c' es pol ?dfs"
        using Inr False by (auto simp: buildContext_def Let_def pg df cong: option.case_cong)
      show ?thesis
      proof (cases "newContext parse rp c es pol ?dfs")
        case (Inl err)
        then show ?thesis by (simp add: b b' newContext_reparent[OF assms])
      next
        case (Inr x)
        then show ?thesis
          using same_filtering_reparent[OF assms newContext_parent[OF Inr]]
          by (simp add: b b' newContext_reparent[OF assms])
      qed
    qed
  qed
qed

lemma filter_entries_same_filtering:
  assumes "same_filtering c c'"
  shows "list_all2 same_listed (fst (filter_entries rp c es)) (fst (filter_entries rp c' es))
       \<and> snd (filter_entries rp c es) = snd (filter_entries rp c' es)"
proof (induction es)
  case Nil
  then show ?case by simp
next
  case (Cons e es)
  then show ?case
    using assms by (auto simp: same_filtering_def split_beta split: entry.splits)
qed

lemma Readdir_same_filtering:
  assumes "same_filtering c c'"
  shows "rel_sum (=) (list_all2 same_listed) (fst (Readdir parse rp c dir)) (fst (Readdir parse rp c' dir))
       \<and> snd (Readdir parse rp c dir) = snd (Readdir parse rp c' dir)"
proof (cases dir)
  case (Inl err)
  then show ?thesis by (simp add: Readdir_def)
next
  case (Inr es)
  show ?thesis
  proof (cases "buildContext parse rp c es")
    case (Inl err)
    with buildContext_same_filtering[OF assms, of parse rp es]
    have "buildContext parse rp c' es = Inl err"
      by (cases "buildContext parse rp c' es") simp_all
    with Inl Inr show ?thesis by (simp add: Readdir_def)
  next
    case b: (Inr x)
    with buildContext_same_filtering[OF assms, of parse rp es]
    obtain x' where b': "buildContext parse rp c' es = Inr x'" and s: "same_filtering x x'"
      by (cases "buildContext parse rp c' es") simp_all
    from filter_entries_same_filtering[OF s, of rp es] b b' Inr show ?thesis
      by (simp add: Readdir_def split_beta)
  qed
qed

text \<open>
  Claim C6. When the policy getter has no policy for the directory and none of the effective
  dotfile names is found in its listing, \<open>buildContext\<close> returns the parent context itself, and
  the fresh child context that lines 125 to 143 would build instead filters exactly like it:
  \<open>shouldIncludeByName\<close> gives the same answer and makes the same callback calls for every path
  and entry, the size limit, dotfile names, callbacks and policy getter are the same, and the loop
  of \<open>Readdir\<close> keeps the same entries and makes the same calls on every listing. The same
  holds further down: \<open>Readdir\<close> of any directory that is handed the child context returns what
  it returns when handed the parent context, with the same calls, and the directories it wraps
  carry contexts that again filter alike.
\<close>

theorem reuse_parent_context_equivalent:
  assumes nopolicy: "policyGetter parentContext relativePath = Inr None"
    and nodotfile: "\<not> list_ex (\<lambda>dotfile. FindByName entries dotfile \<noteq> None)
                        (dotIgnoreFiles parentContext)"
  shows "buildContext parse relativePath parentContext entries = Inr parentContext
       \<and> (\<exists>child. newContext parse relativePath parentContext entries None
                     (dotIgnoreFiles parentContext) = Inr child
             \<and> (\<forall>path e. shouldIncludeByName child path e
                            = shouldIncludeByName parentContext path e)
             \<and> maxFileSize child = maxFileSize parentContext
             \<and> dotIgnoreFiles child = dotIgnoreFiles parentContext
             \<and> onIgnore child = onIgnore parentContext
             \<and> policyGetter child = policyGetter parentContext
             \<and> (\<forall>es. map unwrapped (fst (filter_entries relativePath child es))
                         = map unwrapped (fst (filter_entries relativePath parentContext es))
                     \<and> snd (filter_entries relativePath child es)
                         = snd (filter_entries relativePath parentContext es))
             \<and> (\<forall>below dir.
                    rel_sum (=) (list_all2 same_listed)
                      (fst (Readdir parse below child dir))
                      (fst (Readdir parse below parentContext dir))
                  \<and> snd (Readdir parse below child dir)
                      = snd (Readdir parse below parentContext dir)))"
proof -
  let ?child = "IgnoreContext (Some parentContext) (policyGetter parentContext)
                  (onIgnore parentContext) (dotIgnoreFiles parentContext) []
                  (maxFileSize parentContext)"
  have b: "buildContext parse relativePath parentContext entries = Inr parentContext"
    using nopolicy nodotfile by (simp add: buildContext_def)
  have n: "newContext parse relativePath parentContext entries None
             (dotIgnoreFiles parentContext) = Inr ?child"
    by (rule newContext_no_policy_no_dotfile[OF nodotfile])
  have s: "\<forall>path e. shouldIncludeByName ?child path e = shouldIncludeByName parentContext path e"
    by simp
  have m: "maxFileSize ?child = maxFileSize parentContext" by simp
  have f: "\<forall>es. map unwrapped (fst (filter_entries relativePath ?child es))
                 = map unwrapped (fst (filter_entries relativePath parentContext es))
             \<and> snd (filter_entries relativePath ?child es)
                 = snd (filter_entries relativePath parentContext es)"
    using filter_entries_cong[of ?child parentContext relativePath] by simp
  have sf: "same_filtering ?child parentContext"
    by (simp add: same_filtering_def)
  have r: "\<forall>below dir.
             rel_sum (=) (list_all2 same_listed)
               (fst (Readdir parse below ?child dir))
               (fst (Readdir parse below parentContext dir))
           \<and> snd (Readdir parse below ?child dir)
               = snd (Readdir parse below parentContext dir)"
    using Readdir_same_filtering[OF sf] by blast
  from b n s m f r show ?thesis by simp
qed

text \<open>
  C6 run on a parent context that ignores \<open>secret\<close>, in a directory without policy or dotfile.
\<close>

theorem reuse_parent_context_equivalent_witness:
  "map unwrapped (fst (filter_entries ''./sub''
       (projr (newContext toy_parse ''./sub'' toy_context toy_sub None (dotIgnoreFiles toy_context)))
       toy_sub))
     = [EFile ''keep'' 1 (Inr [])]
   \<and> map unwrapped (fst (filter_entries ''./sub''
       (projr (buildContext toy_parse ''./sub'' toy_context toy_sub)) toy_sub))
     = [EFile ''keep'' 1 (Inr [])]
   \<and> snd (filter_entries ''./sub''
       (projr (newContext toy_parse ''./sub'' toy_context toy_sub None (dotIgnoreFiles toy_context)))
       toy_sub)
     = [(7, ''./sub/secret'', EFile ''secret'' 1 (Inr []))]"
proof -
  have p: "policyGetter toy_context ''./sub'' = Inr None"
    by (simp add: toy_context_def FilesPolicyMap_def)
  have d: "\<not> list_ex (\<lambda>dotfile. FindByName toy_sub dotfile \<noteq> None) (dotIgnoreFiles toy_context)"
    by (simp add: toy_context_def toy_sub_def FindByName_def)
  from reuse_parent_context_equivalent[OF p d, of toy_parse] obtain child where
    b: "buildContext toy_parse ''./sub'' toy_context toy_sub = Inr toy_context"
    and n: "newContext toy_parse ''./sub'' toy_context toy_sub None (dotIgnoreFiles toy_context)
              = Inr child"
    and f: "map unwrapped (fst (filter_entries ''./sub'' child toy_sub))
              = map unwrapped (fst (filter_entries ''./sub'' toy_context toy_sub))"
           "snd (filter_entries ''./sub'' child toy_sub)
              = snd (filter_entries ''./sub'' toy_context toy_sub)"
    by blast
  have e1: "map unwrapped (fst (filter_entries ''./sub'' toy_context toy_sub))
              = [EFile ''keep'' 1 (Inr [])]"
    by code_simp
  have e2: "snd (filter_entries ''./sub'' toy_context toy_sub)
              = [(7, ''./sub/secret'', EFile ''secret'' 1 (Inr []))]"
    by code_simp
  from b n f e1 e2 show ?thesis by simp
qed

section \<open>Properties of the incremental uploader\<close>

lemma store_le_refl: "store_le st st"
  by (simp add: store_le_def)

lemma store_le_trans: "store_le a b \<Longrightarrow> store_le b c \<Longrightarrow> store_le a c"
  unfolding store_le_def by (rule map_le_trans)

lemma writer_Result_inv:
  assumes inj: "naming_injective m"
    and cons: "cas_consistent m st"
    and res: "writer_Result m (NewWriter st d) d' p c = (r, st')"
  shows "cas_consistent m st' \<and> store_le st st'"
proof (cases "result_error m d' c")
  case (Some err)
  with res have "objects st' = objects st"
    by (auto simp: writer_Result_def NewWriter_def)
  with cons show ?thesis by (simp add: cas_consistent_def store_le_def)
next
  case None
  let ?k = "object_id m p c"
  from None res have o: "objects st' = AList.update ?k c (objects st)"
    by (auto simp: writer_Result_def NewWriter_def)
  then have m: "map_of (objects st') = (map_of (objects st))(?k \<mapsto> c)"
    by (simp add: update_conv')
  have c': "cas_consistent m st'"
    unfolding cas_consistent_def m using cons
    by (auto simp: cas_consistent_def)
  have "map_of (objects st) \<subseteq>\<^sub>m (map_of (objects st))(?k \<mapsto> c)"
  unfolding map_le_def
  proof
    fix a assume "a \<in> dom (map_of (objects st))"
    then obtain b where ab: "map_of (objects st) a = Some b" by auto
    show "map_of (objects st) a = ((map_of (objects st))(?k \<mapsto> c)) a"
    proof (cases "a = ?k")
      case True
      from cons ab obtain p0 where "a = object_id m p0 b"
        by (auto simp: cas_consistent_def)
      with True inj have "b = c" by (auto simp: naming_injective_def)
      with True ab show ?thesis by simp
    next
      case False
      with ab show ?thesis by simp
    qed
  qed
  then have "store_le st st'" by (simp add: store_le_def m)
  with c' show ?thesis by simp
qed

lemma writer_Result_success:
  assumes "writer_Result m (NewWriter st d) d' p c = ((oid, None), st')"
  shows "oid = object_id m p c \<and> map_of (objects st') oid = Some c
       \<and> writers st' = writers st @ [d]"
  using assms
  by (auto simp: writer_Result_def NewWriter_def update_conv' split: option.splits)

lemma UploadFile_inv:
  assumes inj: "naming_injective (mgr u)"
    and cons: "cas_consistent (mgr u) st"
    and res: "UploadFile w u st path = (r, st')"
  shows "cas_consistent (mgr u) st' \<and> store_le st st'"
proof (cases "os_Open w path")
  case (Inl err)
  with res have "st' = st" by (simp add: UploadFile_def)
  with cons show ?thesis by (simp add: store_le_refl)
next
  case (Inr cr)
  obtain content rderr where cr: "cr = (content, rderr)" by (cases cr)
  obtain r1 s1 where w1: "writer_Result (mgr u) (NewWriter st (''FILE:'' @ path)) (''FILE:'' @ path) ''F'' content = (r1, s1)"
    by (cases "writer_Result (mgr u) (NewWriter st (''FILE:'' @ path)) (''FILE:'' @ path) ''F'' content")
  from res Inr cr w1 have "st' = s1"
    by (auto simp: UploadFile_def split: prod.splits option.splits)
  with writer_Result_inv[OF inj cons w1] show ?thesis by simp
qed

lemma upload_entries_inv:
  assumes inj: "naming_injective (mgr u)"
    and dir: "\<And>st path prev r st'. cas_consistent (mgr u) st \<Longrightarrow>
                UploadDir n w u st path prev = Some (r, st') \<Longrightarrow>
                cas_consistent (mgr u) st' \<and> store_le st st'"
  shows "cas_consistent (mgr u) st \<Longrightarrow>
         upload_entries n w u st path cached dmc es = Some (r, st') \<Longrightarrow>
         cas_consistent (mgr u) st' \<and> store_le st st'"
proof (induction es arbitrary: st dmc r st')
  case Nil
  then show ?case by (simp add: store_le_refl)
next
  case (Cons e es)
  let ?full = "filepath_Join path (Name e)"
  let ?ce = "FindEntryName cached (Name e)"
  let ?cmm = "metadataEquals e ?ce"
  show ?case
  proof (cases "Type e = EntryTypeDirectory")
    case True
    let ?prev = "case ?ce of None \<Rightarrow> [] | Some c \<Rightarrow> ObjectID c"
    from Cons.prems(2) True obtain oid err1 st1 where
      d: "UploadDir n w u st ?full ?prev = Some ((oid, err1), st1)"
      by (auto simp: Let_def split: option.splits prod.splits)
    from dir[OF Cons.prems(1) d] have c1: "cas_consistent (mgr u) st1" and l1: "store_le st st1"
      by simp_all
    show ?thesis
    proof (cases err1)
      case (Some err)
      with Cons.prems(2) True d have "st' = st1" by (simp add: Let_def)
      with c1 l1 show ?thesis by simp
    next
      case None
      let ?dmc' = "case ?ce of None \<Rightarrow> (dmc \<and> ?cmm)
                   | Some c \<Rightarrow> (if oid \<noteq> ObjectID c then False else (dmc \<and> ?cmm))"
      from Cons.prems(2) True d None obtain r2 where
        "upload_entries n w u st1 path cached ?dmc' es = Some (r2, st')"
        by (auto simp: Let_def split: option.splits prod.splits sum.splits)
      from Cons.IH[OF c1 this] l1 show ?thesis by (auto intro: store_le_trans)
    qed
  next
    case False
    show ?thesis
    proof (cases ?cmm)
      case True
      show ?thesis
      proof (cases ?ce)
        case None
        with Cons.prems(2) False True have "st' = st" by (simp add: Let_def)
        with Cons.prems(1) show ?thesis by (simp add: store_le_refl)
      next
        case (Some c)
        with Cons.prems(2) False True obtain r2 where
          "upload_entries n w u st path cached (dmc \<and> ?cmm) es = Some (r2, st')"
          by (auto simp: Let_def split: option.splits prod.splits sum.splits)
        from Cons.IH[OF Cons.prems(1) this] show ?thesis .
      qed
    next
      case nomatch: False
      obtain oid err1 st1 where f: "UploadFile w u st ?full = ((oid, err1), st1)"
        by (cases "UploadFile w u st ?full") auto
      from UploadFile_inv[OF inj Cons.prems(1) f]
      have c1: "cas_consistent (mgr u) st1" and l1: "store_le st st1" by simp_all
      show ?thesis
      proof (cases err1)
        case (Some err)
        with Cons.prems(2) False nomatch f have "st' = st1" by (simp add: Let_def)
        with c1 l1 show ?thesis by simp
      next
        case None
        with Cons.prems(2) False nomatch f obtain r2 where
          "upload_entries n w u st1 path cached (dmc \<and> ?cmm) es = Some (r2, st')"
          by (auto simp: Let_def split: option.splits prod.splits sum.splits)
        from Cons.IH[OF c1 this] l1 show ?thesis by (auto intro: store_le_trans)
      qed
    qed
  qed
qed

lemma UploadDir_inv:
  assumes inj: "naming_injective (mgr u)"
  shows "cas_consistent (mgr u) st \<Longrightarrow>
         UploadDir n w u st path prev = Some (r, st') \<Longrightarrow>
         cas_consistent (mgr u) st' \<and> store_le st st'"
proof (induction n arbitrary: st path prev r st')
  case 0
  then show ?case by simp
next
  case (Suc n)
  show ?case
  proof (cases "cancelled u")
    case True
    with Suc.prems show ?thesis by (simp add: store_le_refl)
  next
    case False
    show ?thesis
    proof (cases "lister u path")
      case (Inl err)
      with Suc.prems False show ?thesis by (simp add: store_le_refl)
    next
      case (Inr listing)
      let ?cached = "if prev \<noteq> [] then
                       (case mgr_Open st prev of Inr r \<Rightarrow> fst (ReadDir w r) | Inl err \<Rightarrow> [])
                     else []"
      from Suc.prems(2) False Inr obtain r1 s1 where
        l: "upload_entries n w u st path ?cached (length ?cached = length listing) listing
              = Some (r1, s1)"
        by (auto simp: Let_def split: option.splits prod.splits)
      have inv1: "cas_consistent (mgr u) s1 \<and> store_le st s1"
        by (rule upload_entries_inv[OF inj Suc.IH Suc.prems(1) l])
      show ?thesis
      proof (cases r1)
        case (Inl err)
        with Suc.prems(2) False Inr l have "st' = s1" by (simp add: Let_def)
        with inv1 show ?thesis by simp
      next
        case r1: (Inr dl)
        obtain d l' where dl: "dl = (d, l')" by (cases dl)
        show ?thesis
        proof (cases "d \<and> prev \<noteq> []")
          case True
          with Suc.prems(2) False Inr l r1 dl have "st' = s1" by (simp add: Let_def)
          with inv1 show ?thesis by simp
        next
          case nw: False
          with Suc.prems(2) False Inr l r1 dl have
            "writer_Result (mgr u) (NewWriter s1 (''DIR:'' @ path)) (''DIR:'' @ path) ''D''
               (WriteDir w l') = (r, st')"
            by (auto simp: Let_def)
          from writer_Result_inv[OF inj _ this] inv1 show ?thesis
            by (auto intro: store_le_trans)
        qed
      qed
    qed
  qed
qed

lemma metadataEquals_assigned: "metadataEquals e (Some (e\<lparr>ObjectID := oid\<rparr>))"
  by (simp add: metadataEquals_def)

lemma upload_entries_second_run:
  assumes inj: "naming_injective (mgr u)"
    and again: "\<And>st path R st' st2. cas_consistent (mgr u) st \<Longrightarrow>
                  UploadDir n w u st path [] = Some ((R, None), st') \<Longrightarrow>
                  store_le st' st2 \<Longrightarrow>
                  UploadDir n w u st2 path R = Some ((R, None), st2)"
  shows "cas_consistent (mgr u) st \<Longrightarrow>
         upload_entries n w u st path [] dmc es = Some (Inr (d, es'), st') \<Longrightarrow>
         store_le st' st2 \<Longrightarrow>
         list_all2 (\<lambda>e e'. FindEntryName C (Name e) = Some e') es es' \<Longrightarrow>
         upload_entries n w u st2 path C True es = Some (Inr (True, es'), st2)"
proof (induction es arbitrary: st dmc d es' st')
  case Nil
  then show ?case by simp
next
  case (Cons e es)
  let ?full = "filepath_Join path (Name e)"
  have inv_dir: "\<And>st path prev r st'. cas_consistent (mgr u) st \<Longrightarrow>
                UploadDir n w u st path prev = Some (r, st') \<Longrightarrow>
                cas_consistent (mgr u) st' \<and> store_le st st'"
    by (rule UploadDir_inv[OF inj])
  have nocache: "FindEntryName [] (Name e) = None" by (simp add: FindEntryName_def)
  have nomatch: "\<not> metadataEquals e None" by (simp add: metadataEquals_def)
  show ?case
  proof (cases "Type e = EntryTypeDirectory")
    case True
    from Cons.prems(2) True nocache obtain oid st1 es0 where
      d1: "UploadDir n w u st ?full [] = Some ((oid, None), st1)"
      and l1: "upload_entries n w u st1 path [] False es = Some (Inr (d, es0), st')"
      and es': "es' = e\<lparr>ObjectID := oid\<rparr> # es0"
      by (auto simp: Let_def nomatch split: option.splits prod.splits sum.splits)
    from inv_dir[OF Cons.prems(1) d1] have c1: "cas_consistent (mgr u) st1" by simp
    from upload_entries_inv[OF inj inv_dir c1 l1] have "store_le st1 st'" by simp
    then have le1: "store_le st1 st2" using Cons.prems(3) by (rule store_le_trans)
    from Cons.prems(4) es' have
      ce: "FindEntryName C (Name e) = Some (e\<lparr>ObjectID := oid\<rparr>)"
      and rest: "list_all2 (\<lambda>e e'. FindEntryName C (Name e) = Some e') es es0"
      by simp_all
    have d2: "UploadDir n w u st2 ?full oid = Some ((oid, None), st2)"
      by (rule again[OF Cons.prems(1) d1 le1])
    have l2: "upload_entries n w u st2 path C True es = Some (Inr (True, es0), st2)"
      by (rule Cons.IH[OF c1 l1 Cons.prems(3) rest])
    show ?thesis
      using True ce d2 l2 es'
      by (simp add: Let_def metadataEquals_assigned)
  next
    case False
    obtain oid err1 st1 where f: "UploadFile w u st ?full = ((oid, err1), st1)"
      by (cases "UploadFile w u st ?full") auto
    from Cons.prems(2) False nocache f obtain es0 where
      e1: "err1 = None"
      and l1: "upload_entries n w u st1 path [] False es = Some (Inr (d, es0), st')"
      and es': "es' = e\<lparr>ObjectID := oid\<rparr> # es0"
      by (auto simp: Let_def nomatch split: option.splits prod.splits sum.splits)
    from UploadFile_inv[OF inj Cons.prems(1) f] have c1: "cas_consistent (mgr u) st1" by simp
    from Cons.prems(4) es' have
      ce: "FindEntryName C (Name e) = Some (e\<lparr>ObjectID := oid\<rparr>)"
      and rest: "list_all2 (\<lambda>e e'. FindEntryName C (Name e) = Some e') es es0"
      by simp_all
    have l2: "upload_entries n w u st2 path C True es = Some (Inr (True, es0), st2)"
      by (rule Cons.IH[OF c1 l1 Cons.prems(3) rest])
    show ?thesis
      using False ce l2 es'
      by (simp add: Let_def metadataEquals_assigned)
  qed
qed

lemma upload_entries_assigns:
  "upload_entries n w u st path cached dmc es = Some (Inr (d, es'), st') \<Longrightarrow>
   list_all2 (\<lambda>e e'. \<exists>oid. e' = e\<lparr>ObjectID := oid\<rparr>) es es'"
proof (induction es arbitrary: st dmc d es' st')
  case Nil
  then show ?case by simp
next
  case (Cons e es)
  from Cons.prems obtain oid s dm es0 where
    "es' = e\<lparr>ObjectID := oid\<rparr> # es0"
    "upload_entries n w u s path cached dm es = Some (Inr (d, es0), st')"
    by (auto simp: Let_def split: if_splits option.splits prod.splits sum.splits)
  with Cons.IH show ?case by auto
qed

lemma find_assigned:
  "list_all2 (\<lambda>e e'. \<exists>oid. e' = e\<lparr>ObjectID := oid\<rparr>) es es' \<Longrightarrow>
   distinct (map Name es) \<Longrightarrow>
   (\<And>x. x \<in> set pre \<Longrightarrow> Name x \<notin> Name ` set es) \<Longrightarrow>
   list_all2 (\<lambda>e e'. FindEntryName (pre @ es') (Name e) = Some e') es es'"
proof (induction es arbitrary: es' pre)
  case Nil
  then show ?case by simp
next
  case (Cons e es)
  from Cons.prems(1) obtain e' es0 where es': "es' = e' # es0"
    and hd1: "\<exists>oid. e' = e\<lparr>ObjectID := oid\<rparr>"
    and tl1: "list_all2 (\<lambda>e e'. \<exists>oid. e' = e\<lparr>ObjectID := oid\<rparr>) es es0"
    by (auto simp: list_all2_Cons1)
  from hd1 obtain oid where e': "e' = e\<lparr>ObjectID := oid\<rparr>" by auto
  have pre_no: "\<And>x. x \<in> set pre \<Longrightarrow> Name x \<noteq> Name e"
    using Cons.prems(3) by auto
  have hd: "FindEntryName (pre @ e' # es0) (Name e) = Some e'"
    using pre_no e' by (induction pre) (auto simp: FindEntryName_def)
  have d: "distinct (map Name es)" using Cons.prems(2) by simp
  have fresh: "\<And>x. x \<in> set (pre @ [e']) \<Longrightarrow> Name x \<notin> Name ` set es"
    using Cons.prems(2,3) e' by auto
  have "list_all2 (\<lambda>a b. FindEntryName ((pre @ [e']) @ es0) (Name a) = Some b) es es0"
    by (rule Cons.IH[OF tl1 d fresh])
  with hd es' show ?case by simp
qed

lemma UploadDir_again:
  assumes inj: "naming_injective (mgr u)"
    and codec: "codec_roundtrip w"
    and names: "names_distinct u"
  shows "cas_consistent (mgr u) st \<Longrightarrow>
         UploadDir n w u st path [] = Some ((R, None), st') \<Longrightarrow>
         store_le st' st2 \<Longrightarrow>
         UploadDir n w u st2 path R = Some ((R, None), st2)"
proof (induction n arbitrary: st path R st' st2)
  case 0
  then show ?case by simp
next
  case (Suc n)
  from Suc.prems(2) have nc: "\<not> cancelled u"
    by (auto split: if_splits)
  from Suc.prems(2) nc obtain listing where li: "lister u path = Inr listing"
    by (cases "lister u path") auto
  from Suc.prems(2) nc li obtain d listing' s1 where
    l1: "upload_entries n w u st path [] (0 = length listing) listing = Some (Inr (d, listing'), s1)"
    and wr: "writer_Result (mgr u) (NewWriter s1 (''DIR:'' @ path)) (''DIR:'' @ path) ''D''
               (WriteDir w listing') = ((R, None), st')"
    by (auto simp: Let_def split: option.splits prod.splits sum.splits)
  from writer_Result_success[OF wr] have
    R: "R = object_id (mgr u) ''D'' (WriteDir w listing')"
    and stored: "map_of (objects st') R = Some (WriteDir w listing')"
    by blast+
  from R inj have Rnn: "R \<noteq> []" by (simp add: naming_injective_def NullObjectID_def)
  from stored Suc.prems(3) have "map_of (objects st2) R = Some (WriteDir w listing')"
    by (auto simp: store_le_def map_le_def dom_def)
  then have op: "mgr_Open st2 R = Inr (WriteDir w listing')"
    by (simp add: mgr_Open_def)
  have rd: "fst (ReadDir w (WriteDir w listing')) = listing'"
    using codec by (simp add: codec_roundtrip_def)
  have asg: "list_all2 (\<lambda>e e'. \<exists>oid. e' = e\<lparr>ObjectID := oid\<rparr>) listing listing'"
    by (rule upload_entries_assigns[OF l1])
  then have len: "length listing' = length listing"
    by (simp add: list_all2_lengthD)
  have dn: "distinct (map Name listing)"
    using names li by (simp add: names_distinct_def)
  have fnd: "list_all2 (\<lambda>e e'. FindEntryName ([] @ listing') (Name e) = Some e') listing listing'"
    by (rule find_assigned[OF asg dn]) simp
  have inv_dir: "\<And>st path prev r st'. cas_consistent (mgr u) st \<Longrightarrow>
                UploadDir n w u st path prev = Some (r, st') \<Longrightarrow>
                cas_consistent (mgr u) st' \<and> store_le st st'"
    by (rule UploadDir_inv[OF inj])
  have "store_le s1 st'"
    using writer_Result_inv[OF inj _ wr] upload_entries_inv[OF inj inv_dir Suc.prems(1) l1]
    by simp
  then have le: "store_le s1 st2" using Suc.prems(3) by (rule store_le_trans)
  have l2: "upload_entries n w u st2 path listing' True listing = Some (Inr (True, listing'), st2)"
    using upload_entries_second_run[OF inj Suc.IH Suc.prems(1) l1 le, where C = listing'] fnd
    by simp
  show ?case
    using nc li Rnn op rd len l2 by (simp add: Let_def)
qed

lemma bytes_nats_nat_bytes: "bytes_nats a (nat_bytes n @ rest) = (a + n) # bytes_nats 0 rest"
  by (induction n arbitrary: a) (simp_all add: nat_bytes_def)

lemma bytes_nats_nats_bytes: "bytes_nats 0 (nats_bytes ns) = ns"
proof (induction ns)
  case Nil
  then show ?case by (simp add: nats_bytes_def)
next
  case (Cons n ns)
  have "nats_bytes (n # ns) = nat_bytes n @ nats_bytes ns" by (simp add: nats_bytes_def)
  with Cons show ?case by (simp add: bytes_nats_nat_bytes)
qed

lemma code_type_type_code: "code_type (type_code t) = t"
  by (cases t) (simp_all add: code_type_def)

lemma nat_int_int_nat: "nat_int (int_nat i) = i"
  by (simp add: nat_int_def int_nat_def)

lemma map_char_of_of_char: "map char_of (map of_char s :: nat list) = s"
  by (induction s) simp_all

lemma nats_entries_entry_nats: "nats_entries (entry_nats e @ rest) = e # nats_entries rest"
  by (simp add: entry_nats_def map_char_of_of_char code_type_type_code nat_int_int_nat)

lemma nats_entries_concat: "nats_entries (concat (map entry_nats l)) = l"
proof (induction l)
  case Nil
  then show ?case by simp
next
  case (Cons e l)
  have "nats_entries (entry_nats e @ concat (map entry_nats l)) = e # nats_entries (concat (map entry_nats l))"
    by (rule nats_entries_entry_nats)
  with Cons show ?case by simp
qed

lemma toy_codec_roundtrip: "ReadDir w = toy_ReadDir \<Longrightarrow> WriteDir w = toy_WriteDir \<Longrightarrow> codec_roundtrip w"
  by (simp add: codec_roundtrip_def toy_ReadDir_def toy_WriteDir_def bytes_nats_nats_bytes
      nats_entries_concat)

lemma toy_naming_injective: "naming_injective toy_mgr"
proof -
  have inj: "\<And>c c' :: bytes. map (\<lambda>b. char_of (unat b)) c = map (\<lambda>b. char_of (unat b)) c' \<Longrightarrow> c = c'"
  proof -
    fix c c' :: bytes
    assume "map (\<lambda>b. char_of (unat b)) c = map (\<lambda>b. char_of (unat b)) c'"
    then have "map (\<lambda>ch. (of_char ch :: nat)) (map (\<lambda>b. char_of (unat b)) c)
             = map (\<lambda>ch. (of_char ch :: nat)) (map (\<lambda>b. char_of (unat b)) c')" by simp
    moreover have "\<And>b :: byte. unat b mod 256 = unat b"
    proof -
      fix b :: byte
      have "unat b < 2 ^ LENGTH(8)" by (rule unsigned_less)
      then show "unat b mod 256 = unat b" by simp
    qed
    ultimately have "map unat c = map unat c'" by (simp add: comp_def)
    then show "c = c'" by (simp add: inj_map_eq_map[OF injI])
  qed
  show ?thesis
    by (auto simp: naming_injective_def toy_mgr_def toy_object_id_def NullObjectID_def dest: inj)
qed

text \<open>
  Claim C5. Let the first upload of a tree, with no previous identifier, return \<open>R\<close> without
  error. Uploading the same tree again with \<open>R\<close> as the previous identifier returns \<open>R\<close>, and
  the store it returns is the store it started from: no object was written and no writer was
  opened, so no directory object is emitted. The second conjunct is the short cut itself:
  whenever the loop over the entries ends with \<open>directoryMatchesCache\<close> true and the previous
  identifier is not null, \<open>UploadDir\<close> returns it with the store the loop left.
  The tree is unchanged: the lister, the files and the cancellation flag are those of the first
  run. Assumed of the code outside: the store names without collisions, \<open>ReadDir\<close> reads back
  what \<open>WriteDir\<close> wrote, and a listing has no two entries of one name.
\<close>

theorem UploadDir_unchanged_returns_previous:
  assumes inj: "naming_injective (mgr u)"
    and codec: "codec_roundtrip w"
    and names: "names_distinct u"
    and cons: "cas_consistent (mgr u) st"
    and first: "UploadDir n w u st path NullObjectID = Some ((R, None), st1)"
  shows "UploadDir n w u st1 path R = Some ((R, None), st1)
       \<and> (\<forall>k s p previous listing l' s'.
             \<not> cancelled u \<and> lister u p = Inr listing \<and> previous \<noteq> NullObjectID
             \<and> upload_entries k w u s p
                 (case mgr_Open s previous of Inr r \<Rightarrow> fst (ReadDir w r) | Inl err \<Rightarrow> [])
                 (length (case mgr_Open s previous of Inr r \<Rightarrow> fst (ReadDir w r) | Inl err \<Rightarrow> [])
                    = length listing)
                 listing = Some (Inr (True, l'), s')
             \<longrightarrow> UploadDir (Suc k) w u s p previous = Some ((previous, None), s'))"
proof -
  have a: "UploadDir n w u st1 path R = Some ((R, None), st1)"
    using UploadDir_again[OF inj codec names cons _ store_le_refl] first
    by (simp add: NullObjectID_def)
  have b: "\<forall>k s p previous listing l' s'.
             \<not> cancelled u \<and> lister u p = Inr listing \<and> previous \<noteq> NullObjectID
             \<and> upload_entries k w u s p
                 (case mgr_Open s previous of Inr r \<Rightarrow> fst (ReadDir w r) | Inl err \<Rightarrow> [])
                 (length (case mgr_Open s previous of Inr r \<Rightarrow> fst (ReadDir w r) | Inl err \<Rightarrow> [])
                    = length listing)
                 listing = Some (Inr (True, l'), s')
             \<longrightarrow> UploadDir (Suc k) w u s p previous = Some ((previous, None), s')"
    by (simp add: NullObjectID_def Let_def)
  from a b show ?thesis by simp
qed

text \<open>
  C5 run on the tree \<open>/r = {a, sub = {b}}\<close>: the first run opens four writers, the second run
  returns the same identifier and the same store.
\<close>

theorem UploadDir_unchanged_returns_previous_witness:
  "snd (fst (the (UploadDir 3 toy_outside toy_uploader empty_cas ''/r'' NullObjectID))) = None
   \<and> UploadDir 3 toy_outside toy_uploader
       (snd (the (UploadDir 3 toy_outside toy_uploader empty_cas ''/r'' NullObjectID))) ''/r''
       (fst (fst (the (UploadDir 3 toy_outside toy_uploader empty_cas ''/r'' NullObjectID))))
     = UploadDir 3 toy_outside toy_uploader empty_cas ''/r'' NullObjectID
   \<and> writers (snd (the (UploadDir 3 toy_outside toy_uploader empty_cas ''/r'' NullObjectID)))
     = [''FILE:/r/a'', ''FILE:/r/sub/b'', ''DIR:/r/sub'', ''DIR:/r'']"
proof -
  let ?X = "UploadDir 3 toy_outside toy_uploader empty_cas ''/r'' NullObjectID"
  have inj: "naming_injective (mgr toy_uploader)"
    using toy_naming_injective by (simp add: toy_uploader_def)
  have codec: "codec_roundtrip toy_outside"
    by (rule toy_codec_roundtrip) (simp_all add: toy_outside_def)
  have names: "names_distinct toy_uploader"
    by (auto simp: names_distinct_def toy_uploader_def toy_lister_def toy_entry_def
        split: if_splits)
  have cons: "cas_consistent (mgr toy_uploader) empty_cas"
    by (simp add: cas_consistent_def empty_cas_def)
  have e: "snd (fst (the ?X)) = None" by code_simp
  have s: "?X = Some ((fst (fst (the ?X)), None), snd (the ?X))" by code_simp
  have wr: "writers (snd (the ?X)) = [''FILE:/r/a'', ''FILE:/r/sub/b'', ''DIR:/r/sub'', ''DIR:/r'']"
    by code_simp
  have "UploadDir 3 toy_outside toy_uploader (snd (the ?X)) ''/r'' (fst (fst (the ?X)))
          = Some ((fst (fst (the ?X)), None), snd (the ?X))"
    using UploadDir_unchanged_returns_previous[OF inj codec names cons s] by simp
  with s e wr show ?thesis by simp
qed

text \<open>
  Claim C10. When the file opens and reading it fails after \<open>content\<close> was read,
  \<open>UploadFile\<close> does exactly what it does on a file that ends after \<open>content\<close>: the error of
  the copy is dropped, and unless the writer's \<open>Result\<close> fails the identifier returned is that
  of the bytes copied before the failure, with no error.
\<close>

theorem UploadFile_ignores_copy_error:
  assumes "os_Open w path = Inr (content, Some err)"
  shows "UploadFile w u st path
           = UploadFile (w\<lparr>os_Open := (os_Open w)(path := Inr (content, None))\<rparr>) u st path
       \<and> fst (UploadFile w u st path)
           = (case result_error (mgr u) (''FILE:'' @ path) content of
                None \<Rightarrow> (object_id (mgr u) ''F'' content, None)
              | Some e \<Rightarrow> (NullObjectID, Some e))"
  using assms
  by (simp add: UploadFile_def writer_Result_def split: option.splits)

text \<open>
  C10 run on a file whose read fails after two bytes.
\<close>

theorem UploadFile_ignores_copy_error_witness:
  "UploadFile toy_outside toy_uploader empty_cas ''/r/bad''
     = ((toy_object_id ''F'' [9, 9], None),
        \<lparr>objects = [(toy_object_id ''F'' [9, 9], [9, 9])], writers = [''FILE:/r/bad'']\<rparr>)"
proof -
  have o: "os_Open toy_outside ''/r/bad'' = Inr ([9, 9], Some (ExternalError ''read failed''))"
    by (simp add: toy_outside_def toy_files_def)
  have "fst (UploadFile toy_outside toy_uploader empty_cas ''/r/bad'')
          = (toy_object_id ''F'' [9, 9], None)"
    using conjunct2[OF UploadFile_ignores_copy_error[OF o, of toy_uploader empty_cas]]
    by (simp add: toy_uploader_def toy_mgr_def)
  moreover have "snd (UploadFile toy_outside toy_uploader empty_cas ''/r/bad'')
          = \<lparr>objects = [(toy_object_id ''F'' [9, 9], [9, 9])], writers = [''FILE:/r/bad'']\<rparr>"
    by code_simp
  ultimately show ?thesis by (simp add: prod_eq_iff)
qed

end
